theory Spec2Isabelle
  imports Main "HOL-Library.Char_ord" "HOL-Library.Sublist"
begin

section \<open>The urlparse processor of libbeat\<close>

text \<open>
  The processor (\<^verbatim>\<open>libbeat/processors/urlparse/urlparse.go\<close>) reads a field of an event,
  parses it as a URL and writes the components of the URL back into the event. The
  functions \<^verbatim>\<open>New\<close>, \<^verbatim>\<open>Run\<close> and \<^verbatim>\<open>parseField\<close> are embedded from that file. What they
  call in other packages (the event and its field map, the configuration object and its
  checks, the URL parser of the standard library) is not part of the file; those parts are
  modelled from the specification, each under a comment that says so.
\<close>

subsection \<open>Strings\<close>

text \<open>Go strings are byte sequences; \<^typ>\<open>string\<close> is a list of 8-bit characters.\<close>

fun IndexByte :: "string \<Rightarrow> char \<Rightarrow> nat option" where
  "IndexByte [] c = None"
| "IndexByte (x # xs) c = (if x = c then Some 0 else map_option Suc (IndexByte xs c))"

definition LastIndexByte :: "string \<Rightarrow> char \<Rightarrow> nat option" where
  "LastIndexByte s c =
     (case IndexByte (rev s) c of None \<Rightarrow> None | Some i \<Rightarrow> Some (length s - 1 - i))"

fun Index :: "string \<Rightarrow> string \<Rightarrow> nat option" where
  "Index [] sub = (if sub = [] then Some 0 else None)"
| "Index (x # xs) sub =
     (if prefix sub (x # xs) then Some 0 else map_option Suc (Index xs sub))"

text \<open>\<^verbatim>\<open>strings.Split(key, ".")\<close>: the segments between the dots, never an empty list.\<close>

fun splitDots :: "string \<Rightarrow> string list" where
  "splitDots [] = [[]]"
| "splitDots (c # cs) =
     (if c = CHR ''.'' then [] # splitDots cs
      else (case splitDots cs of [] \<Rightarrow> [[c]] | w # ws \<Rightarrow> (c # w) # ws))"

subsection \<open>Events\<close>

text \<open>
  A field value is dynamically typed. The processor only asks whether a value is a string
  and whether it is a map that a path can pass through.
\<close>

datatype val =
    VNil
  | VBool bool
  | VInt int
  | VStr string
  | VMap "string \<Rightarrow> val option"

type_synonym MapStr = "string \<Rightarrow> val option"

datatype mapstr_error = ErrKeyNotFound | ErrNotMapStr

text \<open>
  Modelled from the spec: the event abstraction (\<^verbatim>\<open>common.MapStr\<close> and \<^verbatim>\<open>beat.Event\<close>) is
  missing from the source. The specification describes it as a mapping of dotted field
  paths to values, with nested mappings, supporting \<^verbatim>\<open>get(path) -> value | NotFound\<close>,
  \<^verbatim>\<open>put(path, value) -> ok | error\<close> (which creates what is missing, overwrites what is
  there and fails only when a segment of the path holds a value that is not a container)
  and \<^verbatim>\<open>clone()\<close>. The lookup has a second failure, a path that passes through a value
  that is not a map: \<^verbatim>\<open>parseField\<close> tells it apart from \<^verbatim>\<open>ErrKeyNotFound\<close>.
  The empty path does not occur: \<^const>\<open>splitDots\<close> returns at least one segment.
\<close>

fun walk_get :: "string list \<Rightarrow> MapStr \<Rightarrow> mapstr_error + val" where
  "walk_get [] m = Inl ErrKeyNotFound"
| "walk_get [k] m = (case m k of None \<Rightarrow> Inl ErrKeyNotFound | Some v \<Rightarrow> Inr v)"
| "walk_get (k # ks) m =
     (case m k of
        None \<Rightarrow> Inl ErrKeyNotFound
      | Some (VMap sub) \<Rightarrow> walk_get ks sub
      | Some _ \<Rightarrow> Inl ErrNotMapStr)"

fun walk_put :: "string list \<Rightarrow> val \<Rightarrow> MapStr \<Rightarrow> mapstr_error + MapStr" where
  "walk_put [] v m = Inl ErrKeyNotFound"
| "walk_put [k] v m = Inr (m(k \<mapsto> v))"
| "walk_put (k # ks) v m =
     (case m k of
        None \<Rightarrow>
          (case walk_put ks v Map.empty of
             Inl e \<Rightarrow> Inl e
           | Inr sub' \<Rightarrow> Inr (m(k \<mapsto> VMap sub')))
      | Some (VMap sub) \<Rightarrow>
          (case walk_put ks v sub of
             Inl e \<Rightarrow> Inl e
           | Inr sub' \<Rightarrow> Inr (m(k \<mapsto> VMap sub')))
      | Some _ \<Rightarrow> Inl ErrNotMapStr)"

definition MapStr_GetValue :: "MapStr \<Rightarrow> string \<Rightarrow> mapstr_error + val" where
  "MapStr_GetValue m key = walk_get (splitDots key) m"

definition MapStr_Put :: "MapStr \<Rightarrow> string \<Rightarrow> val \<Rightarrow> mapstr_error + MapStr" where
  "MapStr_Put m key v = walk_put (splitDots key) v m"

text \<open>
  Modelled from the spec: \<^verbatim>\<open>clone()\<close> gives an independent deep copy. With values instead
  of references the copy is the map itself, and no later write can reach it.
\<close>

definition Clone :: "MapStr \<Rightarrow> MapStr" where
  "Clone m = m"

record Event =
  EventFields :: MapStr

definition GetValue :: "Event \<Rightarrow> string \<Rightarrow> mapstr_error + val" where
  "GetValue event key = MapStr_GetValue (EventFields event) key"

definition PutValue :: "Event \<Rightarrow> string \<Rightarrow> val \<Rightarrow> mapstr_error + Event" where
  "PutValue event key v =
     (case MapStr_Put (EventFields event) key v of
        Inl e \<Rightarrow> Inl e
      | Inr m \<Rightarrow> Inr (event\<lparr>EventFields := m\<rparr>))"

subsection \<open>URLs\<close>

text \<open>
  Modelled from the spec: the URL parser (\<^verbatim>\<open>url.Parse\<close>, \<^verbatim>\<open>Hostname\<close> and \<^verbatim>\<open>Port\<close> of
  the standard library's \<^verbatim>\<open>net/url\<close>) is missing from the source. The specification asks
  for a decomposition into scheme, opaque part, host name without port, port, decoded
  path, raw path (empty when it is the default encoding of the path), raw query and
  fragment, with the permissive grammar of standard URL parsing: the scheme is optional,
  and only structurally invalid input (a malformed percent-escape, an invalid port, a
  control character, a colon in the first segment of a relative path, invalid user
  information or host bytes) is an error. The definitions follow the steps of the
  standard library in their order. Of the parsed URL only the fields that \<^verbatim>\<open>parseField\<close>
  reads are kept.
\<close>

record URL =
  Scheme :: string
  Opaque :: string
  Host :: string
  Path :: string
  RawPath :: string
  RawQuery :: string
  Fragment :: string

datatype url_err =
    ErrControlCharacter
  | ErrMissingScheme
  | ErrFirstSegmentColon
  | ErrMissingBracket
  | ErrInvalidPort string
  | ErrInvalidUserinfo
  | EscapeError string
  | InvalidHostError string

datatype url_Error = url_Error string string url_err

datatype encoding =
    encodePath
  | encodePathSegment
  | encodeHost
  | encodeZone
  | encodeUserPassword
  | encodeQueryComponent
  | encodeFragment

text \<open>A byte in a range, as in \<^verbatim>\<open>'a' <= c && c <= 'z'\<close>.\<close>

definition in_range :: "char \<Rightarrow> char \<Rightarrow> char \<Rightarrow> bool" where
  "in_range lo hi c \<longleftrightarrow> lo \<le> c \<and> c \<le> hi"

definition isAlpha :: "char \<Rightarrow> bool" where
  "isAlpha c \<longleftrightarrow> in_range CHR ''a'' CHR ''z'' c \<or> in_range CHR ''A'' CHR ''Z'' c"

definition isDigit :: "char \<Rightarrow> bool" where
  "isDigit c \<longleftrightarrow> in_range CHR ''0'' CHR ''9'' c"

definition ishex :: "char \<Rightarrow> bool" where
  "ishex c \<longleftrightarrow>
     isDigit c \<or> in_range CHR ''a'' CHR ''f'' c \<or> in_range CHR ''A'' CHR ''F'' c"

definition unhex :: "char \<Rightarrow> nat" where
  "unhex c =
     (if isDigit c then of_char c - of_char CHR ''0''
      else if in_range CHR ''a'' CHR ''f'' c then of_char c - of_char CHR ''a'' + 10
      else if in_range CHR ''A'' CHR ''F'' c then of_char c - of_char CHR ''A'' + 10
      else 0)"

definition upperhex :: "nat \<Rightarrow> char" where
  "upperhex n = ''0123456789ABCDEF'' ! (n mod 16)"

definition ToLower :: "string \<Rightarrow> string" where
  "ToLower s =
     map (\<lambda>c. if in_range CHR ''A'' CHR ''Z'' c then char_of (of_char c + (32::nat)) else c) s"

definition stringContainsCTLByte :: "string \<Rightarrow> bool" where
  "stringContainsCTLByte s \<longleftrightarrow> (\<exists>b \<in> set s. b < CHR '' '' \<or> b = CHR 0x7F)"

text \<open>\<^verbatim>\<open>split(s, sep, cutc)\<close>: at the first separator, which is dropped when \<open>cutc\<close>.\<close>

definition split :: "string \<Rightarrow> char \<Rightarrow> bool \<Rightarrow> string \<times> string" where
  "split s sep cutc =
     (case IndexByte s sep of
        None \<Rightarrow> (s, [])
      | Some i \<Rightarrow> if cutc then (take i s, drop (i + 1) s) else (take i s, drop i s))"

fun getScheme_from :: "nat \<Rightarrow> string \<Rightarrow> string \<Rightarrow> url_err + string \<times> string" where
  "getScheme_from i rawurl [] = Inr ([], rawurl)"
| "getScheme_from i rawurl (c # cs) =
     (if isAlpha c then getScheme_from (i + 1) rawurl cs
      else if isDigit c \<or> c = CHR ''+'' \<or> c = CHR ''-'' \<or> c = CHR ''.'' then
        (if i = 0 then Inr ([], rawurl) else getScheme_from (i + 1) rawurl cs)
      else if c = CHR '':'' then
        (if i = 0 then Inl ErrMissingScheme else Inr (take i rawurl, drop (i + 1) rawurl))
      else Inr ([], rawurl))"

definition getScheme :: "string \<Rightarrow> url_err + string \<times> string" where
  "getScheme rawurl = getScheme_from 0 rawurl rawurl"

definition reserved :: "char \<Rightarrow> bool" where
  "reserved c \<longleftrightarrow> c \<in> set ''$&+,/:;=?@''"

definition shouldEscape :: "char \<Rightarrow> encoding \<Rightarrow> bool" where
  "shouldEscape c mode =
     (if isAlpha c \<or> isDigit c then False
      else if (mode = encodeHost \<or> mode = encodeZone)
          \<and> (c \<in> set ''!$&()*+,;=:[]<>'' \<or> c = CHR 0x27 \<or> c = CHR 0x22) then False
      else if c \<in> set ''-_.~'' then False
      else if reserved c \<and> mode = encodePath then c = CHR ''?''
      else if reserved c \<and> mode = encodePathSegment then
        c = CHR ''/'' \<or> c = CHR '';'' \<or> c = CHR '','' \<or> c = CHR ''?''
      else if reserved c \<and> mode = encodeUserPassword then
        c = CHR ''@'' \<or> c = CHR ''/'' \<or> c = CHR ''?'' \<or> c = CHR '':''
      else if reserved c \<and> mode = encodeQueryComponent then True
      else if reserved c \<and> mode = encodeFragment then False
      else if mode = encodeFragment \<and> c \<in> set ''!()*'' then False
      else True)"

fun unescape :: "string \<Rightarrow> encoding \<Rightarrow> url_err + string" where
  "unescape [] mode = Inr []"
| "unescape (c # s) mode =
     (if c = CHR ''%'' then
        (case s of
           a # b # rest \<Rightarrow>
             if \<not> ishex a \<or> \<not> ishex b then Inl (EscapeError (take 3 (c # s)))
             else if mode = encodeHost \<and> unhex a < 8 \<and> [c, a, b] \<noteq> ''%25''
               then Inl (EscapeError [c, a, b])
             else if mode = encodeZone \<and> [c, a, b] \<noteq> ''%25''
                 \<and> char_of (unhex a * 16 + unhex b) \<noteq> CHR '' ''
                 \<and> shouldEscape (char_of (unhex a * 16 + unhex b)) encodeHost
               then Inl (EscapeError [c, a, b])
             else (case unescape rest mode of
                     Inl e \<Rightarrow> Inl e
                   | Inr t \<Rightarrow> Inr (char_of (unhex a * 16 + unhex b) # t))
         | _ \<Rightarrow> Inl (EscapeError (take 3 (c # s))))
      else if c = CHR ''+'' then
        (case unescape s mode of
           Inl e \<Rightarrow> Inl e
         | Inr t \<Rightarrow> Inr ((if mode = encodeQueryComponent then CHR '' '' else CHR ''+'') # t))
      else if (mode = encodeHost \<or> mode = encodeZone) \<and> (of_char c :: nat) < 128
          \<and> shouldEscape c encodeHost
        then Inl (InvalidHostError [c])
      else (case unescape s mode of
              Inl e \<Rightarrow> Inl e
            | Inr t \<Rightarrow> Inr (c # t)))"

definition escape :: "string \<Rightarrow> encoding \<Rightarrow> string" where
  "escape s mode =
     concat (map (\<lambda>c.
        if shouldEscape c mode then
          (if c = CHR '' '' \<and> mode = encodeQueryComponent then ''+''
           else [CHR ''%'', upperhex (of_char c div 16), upperhex (of_char c mod 16)])
        else [c]) s)"

definition validOptionalPort :: "string \<Rightarrow> bool" where
  "validOptionalPort port \<longleftrightarrow>
     (case port of
        [] \<Rightarrow> True
      | c # ds \<Rightarrow> c = CHR '':'' \<and> (\<forall>b \<in> set ds. isDigit b))"

definition validUserinfo :: "string \<Rightarrow> bool" where
  "validUserinfo s \<longleftrightarrow>
     (\<forall>r \<in> set s. isAlpha r \<or> isDigit r \<or> r \<in> set ''-._:~!$&()*+,;=%@'' \<or> r = CHR 0x27)"

definition parseHost :: "string \<Rightarrow> url_err + string" where
  "parseHost host =
     (if prefix ''['' host then
        (case LastIndexByte host CHR '']'' of
           None \<Rightarrow> Inl ErrMissingBracket
         | Some i \<Rightarrow>
             if \<not> validOptionalPort (drop (i + 1) host)
             then Inl (ErrInvalidPort (drop (i + 1) host))
             else (case Index (take i host) ''%25'' of
                     Some zone \<Rightarrow>
                       (case unescape (take zone host) encodeHost of
                          Inl e \<Rightarrow> Inl e
                        | Inr host1 \<Rightarrow>
                            (case unescape (drop zone (take i host)) encodeZone of
                               Inl e \<Rightarrow> Inl e
                             | Inr host2 \<Rightarrow>
                                 (case unescape (drop i host) encodeHost of
                                    Inl e \<Rightarrow> Inl e
                                  | Inr host3 \<Rightarrow> Inr (host1 @ host2 @ host3))))
                   | None \<Rightarrow> unescape host encodeHost))
      else
        (case LastIndexByte host CHR '':'' of
           Some i \<Rightarrow>
             if \<not> validOptionalPort (drop i host) then Inl (ErrInvalidPort (drop i host))
             else unescape host encodeHost
         | None \<Rightarrow> unescape host encodeHost))"

text \<open>
  The user information is validated and decoded, as a failure there fails the parse; its
  value is not kept.
\<close>

definition parseAuthority :: "string \<Rightarrow> url_err + string" where
  "parseAuthority authority =
     (case LastIndexByte authority CHR ''@'' of
        None \<Rightarrow> parseHost authority
      | Some i \<Rightarrow>
          (case parseHost (drop (i + 1) authority) of
             Inl e \<Rightarrow> Inl e
           | Inr host \<Rightarrow>
               (let userinfo = take i authority in
                if \<not> validUserinfo userinfo then Inl ErrInvalidUserinfo
                else if CHR '':'' \<notin> set userinfo then
                  (case unescape userinfo encodeUserPassword of
                     Inl e \<Rightarrow> Inl e
                   | Inr _ \<Rightarrow> Inr host)
                else
                  (case split userinfo CHR '':'' True of
                     (username, password) \<Rightarrow>
                       (case unescape username encodeUserPassword of
                          Inl e \<Rightarrow> Inl e
                        | Inr _ \<Rightarrow>
                            (case unescape password encodeUserPassword of
                               Inl e \<Rightarrow> Inl e
                             | Inr _ \<Rightarrow> Inr host))))))"

definition setPath :: "URL \<Rightarrow> string \<Rightarrow> url_err + URL" where
  "setPath u p =
     (case unescape p encodePath of
        Inl e \<Rightarrow> Inl e
      | Inr path \<Rightarrow>
          Inr (u\<lparr>Path := path, RawPath := (if p = escape path encodePath then [] else p)\<rparr>))"

definition emptyURL :: URL where
  "emptyURL = \<lparr>Scheme = [], Opaque = [], Host = [], Path = [], RawPath = [],
               RawQuery = [], Fragment = []\<rparr>"

text \<open>\<^verbatim>\<open>parse(rawurl, viaRequest = false)\<close>: everything of the URL but the fragment.\<close>

definition parse :: "string \<Rightarrow> url_err + URL" where
  "parse rawurl =
     (if stringContainsCTLByte rawurl then Inl ErrControlCharacter
      else if rawurl = ''*'' then Inr (emptyURL\<lparr>Path := ''*''\<rparr>)
      else
        (case getScheme rawurl of
           Inl e \<Rightarrow> Inl e
         | Inr (scheme, rest0) \<Rightarrow>
             (let url = emptyURL\<lparr>Scheme := ToLower scheme\<rparr>;
                  (rest, query) =
                     (if suffix ''?'' rest0 \<and> count_list rest0 CHR ''?'' = 1
                      then (butlast rest0, [])
                      else split rest0 CHR ''?'' True);
                  url = url\<lparr>RawQuery := query\<rparr>
              in
              if \<not> prefix ''/'' rest \<and> Scheme url \<noteq> [] then Inr (url\<lparr>Opaque := rest\<rparr>)
              else if \<not> prefix ''/'' rest
                  \<and> (case IndexByte rest CHR '':'' of
                        None \<Rightarrow> False
                      | Some colon \<Rightarrow>
                          (case IndexByte rest CHR ''/'' of
                             None \<Rightarrow> True
                           | Some slash \<Rightarrow> colon < slash))
                then Inl ErrFirstSegmentColon
              else if (Scheme url \<noteq> [] \<or> \<not> prefix ''///'' rest) \<and> prefix ''//'' rest then
                (case split (drop 2 rest) CHR ''/'' False of
                   (authority, rest') \<Rightarrow>
                     (case parseAuthority authority of
                        Inl e \<Rightarrow> Inl e
                      | Inr host \<Rightarrow> setPath (url\<lparr>Host := host\<rparr>) rest'))
              else setPath url rest)))"

definition setFragment :: "URL \<Rightarrow> string \<Rightarrow> url_err + URL" where
  "setFragment u f =
     (case unescape f encodeFragment of
        Inl e \<Rightarrow> Inl e
      | Inr frag \<Rightarrow> Inr (u\<lparr>Fragment := frag\<rparr>))"

definition url_Parse :: "string \<Rightarrow> url_Error + URL" where
  "url_Parse rawurl =
     (case split rawurl CHR ''#'' True of
        (u, frag) \<Rightarrow>
          (case parse u of
             Inl e \<Rightarrow> Inl (url_Error ''parse'' u e)
           | Inr url \<Rightarrow>
               if frag = [] then Inr url
               else (case setFragment url frag of
                       Inl e \<Rightarrow> Inl (url_Error ''parse'' rawurl e)
                     | Inr url' \<Rightarrow> Inr url')))"

definition splitHostPort :: "string \<Rightarrow> string \<times> string" where
  "splitHostPort hostPort =
     (let (host, port) =
            (case LastIndexByte hostPort CHR '':'' of
               Some colon \<Rightarrow>
                 if validOptionalPort (drop colon hostPort)
                 then (take colon hostPort, drop (colon + 1) hostPort)
                 else (hostPort, [])
             | None \<Rightarrow> (hostPort, []))
      in if prefix ''['' host \<and> suffix '']'' host
         then (take (length host - 2) (drop 1 host), port)
         else (host, port))"

definition Hostname :: "URL \<Rightarrow> string" where
  "Hostname u = fst (splitHostPort (Host u))"

definition Port :: "URL \<Rightarrow> string" where
  "Port u = snd (splitHostPort (Host u))"

subsection \<open>The processor\<close>

record fromTo =
  From :: string
  To :: string

record urlParseConfig =
  Fields :: "fromTo list"
  IgnoreMissing :: bool
  FailOnError :: bool

text \<open>
  The errors of \<^verbatim>\<open>parseField\<close> are made by \<^verbatim>\<open>fmt.Errorf\<close>; each is kept as a constructor
  for its format string, with the arguments of the call.
\<close>

datatype error =
    FetchError string mapstr_error
  | TypeError val
  | ParseError string url_Error
  | PutError URL string mapstr_error

text \<open>
  Modelled from the spec: how \<^verbatim>\<open>fmt\<close> prints a value of another package (\<^verbatim>\<open>%v\<close> of an
  error of the field map or of the URL parser, \<^verbatim>\<open>%T\<close> of a field value, \<^verbatim>\<open>%s\<close> of a
  parsed URL) is missing from the source, and the specification asks only for a
  diagnostic message. Each is printed here as a short text for its kind; the format
  strings and their string arguments are those of the source.
\<close>

definition mapstr_error_text :: "mapstr_error \<Rightarrow> string" where
  "mapstr_error_text e =
     (case e of ErrKeyNotFound \<Rightarrow> ''key not found'' | ErrNotMapStr \<Rightarrow> ''expected map'')"

definition type_text :: "val \<Rightarrow> string" where
  "type_text v =
     (case v of
        VNil \<Rightarrow> ''<nil>''
      | VBool _ \<Rightarrow> ''bool''
      | VInt _ \<Rightarrow> ''int''
      | VStr _ \<Rightarrow> ''string''
      | VMap _ \<Rightarrow> ''common.MapStr'')"

definition url_Error_text :: "url_Error \<Rightarrow> string" where
  "url_Error_text e = (case e of url_Error op u _ \<Rightarrow> op @ '' '' @ u @ '': invalid URL'')"

definition URL_text :: "URL \<Rightarrow> string" where
  "URL_text u =
     (if Scheme u = [] then [] else Scheme u @ '':'')
     @ (if Opaque u \<noteq> [] then Opaque u
        else (if Host u = [] then [] else ''//'' @ Host u) @ Path u)
     @ (if RawQuery u = [] then [] else ''?'' @ RawQuery u)
     @ (if Fragment u = [] then [] else ''#'' @ Fragment u)"

fun Error_text :: "error \<Rightarrow> string" where
  "Error_text (FetchError from err) =
     ''could not fetch value for key: '' @ from @ '', Error: '' @ mapstr_error_text err"
| "Error_text (TypeError v) =
     ''invalid type for `from`, expecting a string received '' @ type_text v"
| "Error_text (ParseError parsedString err) =
     ''error trying to URL-parse '' @ parsedString @ '': '' @ url_Error_text err"
| "Error_text (PutError parseData target err) =
     ''could not put value: '' @ URL_text parseData @ '': '' @ target @ '', ''
       @ mapstr_error_text err"

text \<open>The map literal that \<^verbatim>\<open>parseField\<close> writes at the target.\<close>

definition components :: "URL \<Rightarrow> MapStr" where
  "components parseData =
     [''scheme'' \<mapsto> VStr (Scheme parseData),
      ''opaque'' \<mapsto> VStr (Opaque parseData),
      ''hostname'' \<mapsto> VStr (Hostname parseData),
      ''port'' \<mapsto> VStr (Port parseData),
      ''path'' \<mapsto> VStr (Path parseData),
      ''raw_path'' \<mapsto> VStr (RawPath parseData),
      ''raw_query'' \<mapsto> VStr (RawQuery parseData),
      ''fragment'' \<mapsto> VStr (Fragment parseData)]"

text \<open>
  \<^verbatim>\<open>parseField\<close> changes the event in place and returns an error or nil; here it returns
  the event after the call and the error. The cause of a lookup error is the error
  itself, as wrapping is not modelled. The debug log of \<^verbatim>\<open>Run\<close> is not part of the result
  and is left out.
\<close>

definition parseField :: "urlParseConfig \<Rightarrow> string \<Rightarrow> string \<Rightarrow> Event \<Rightarrow> Event \<times> error option" where
  "parseField config from to event =
     (case GetValue event from of
        Inl err \<Rightarrow>
          if IgnoreMissing config \<and> err = ErrKeyNotFound then (event, None)
          else (event, Some (FetchError from err))
      | Inr v \<Rightarrow>
          (case v of
             VStr parsedString \<Rightarrow>
               (case url_Parse parsedString of
                  Inl err \<Rightarrow> (event, Some (ParseError parsedString err))
                | Inr parseData \<Rightarrow>
                    (let target = (if to = [] then from else to) in
                     case PutValue event target (VMap (components parseData)) of
                       Inl err \<Rightarrow> (event, Some (PutError parseData target err))
                     | Inr event' \<Rightarrow> (event', None)))
           | _ \<Rightarrow> (event, Some (TypeError v))))"

definition errMsg :: "error \<Rightarrow> string" where
  "errMsg err = ''failed to parse fields in urlparse processor: '' @ Error_text err"

text \<open>
  The failure branch of the loop under \<^verbatim>\<open>FailOnError\<close>: the fields are replaced by the
  backup and the message is put at \<^verbatim>\<open>error.message\<close>; what \<^verbatim>\<open>PutValue\<close> returns is dropped,
  so a failed put leaves the restored event as it is.
\<close>

definition restore :: "MapStr \<Rightarrow> error \<Rightarrow> Event \<Rightarrow> Event" where
  "restore backup err event =
     (let event' = event\<lparr>EventFields := backup\<rparr> in
      case PutValue event' ''error.message'' (VStr (errMsg err)) of
        Inl _ \<Rightarrow> event'
      | Inr event'' \<Rightarrow> event'')"

fun run_fields :: "urlParseConfig \<Rightarrow> MapStr \<Rightarrow> fromTo list \<Rightarrow> Event \<Rightarrow> Event \<times> error option" where
  "run_fields config backup [] event = (event, None)"
| "run_fields config backup (field # rest) event =
     (case parseField config (From field) (To field) event of
        (event', Some err) \<Rightarrow>
          if FailOnError config then (restore backup err event', Some err)
          else run_fields config backup rest event'
      | (event', None) \<Rightarrow> run_fields config backup rest event')"

text \<open>The backup is taken under \<^verbatim>\<open>FailOnError\<close> only; otherwise it is the nil map.\<close>

definition Run :: "urlParseConfig \<Rightarrow> Event \<Rightarrow> Event \<times> error option" where
  "Run config event =
     (let backup = (if FailOnError config then Clone (EventFields event) else Map.empty)
      in run_fields config backup (Fields config) event)"

subsection \<open>Construction\<close>

text \<open>
  Modelled from the spec: the configuration object (\<^verbatim>\<open>common.Config\<close> with \<^verbatim>\<open>Unpack\<close>) and
  the checks of \<^verbatim>\<open>processors/checks\<close> are missing from the source. The specification
  gives the options: \<^verbatim>\<open>fields\<close>, a required, non-empty sequence of entries with a required
  string \<^verbatim>\<open>from\<close> and an optional string \<^verbatim>\<open>to\<close>; \<^verbatim>\<open>ignore_missing\<close> and \<^verbatim>\<open>fail_on_error\<close>,
  optional booleans; construction fails when \<^verbatim>\<open>fields\<close> is absent or empty, when an entry
  lacks \<^verbatim>\<open>from\<close>, and when the raw configuration has a key outside the recognised set.
  A raw configuration is a list of keys with their settings. \<^verbatim>\<open>Unpack\<close> follows the tags
  of the structs (\<^verbatim>\<open>validate:"required"\<close> on \<^verbatim>\<open>Fields\<close> and \<^verbatim>\<open>From\<close>) and leaves a field
  of the struct as it is when its key is absent; the checks are those that \<^verbatim>\<open>init\<close>
  passes to \<^verbatim>\<open>checks.ConfigChecked\<close>.
\<close>

datatype cfg =
    CBool bool
  | CInt int
  | CStr string
  | CList "cfg list"
  | CDict "(string \<times> cfg) list"

type_synonym Config = "(string \<times> cfg) list"

datatype config_error =
    MissingOption string
  | UnexpectedOption string
  | Required string
  | WrongType string

definition HasField :: "Config \<Rightarrow> string \<Rightarrow> bool" where
  "HasField c name \<longleftrightarrow> map_of c name \<noteq> None"

definition GetFields :: "Config \<Rightarrow> string list" where
  "GetFields c = map fst c"

fun RequireFields :: "string list \<Rightarrow> Config \<Rightarrow> config_error option" where
  "RequireFields [] c = None"
| "RequireFields (name # names) c =
     (if \<not> HasField c name then Some (MissingOption name) else RequireFields names c)"

definition AllowedFields :: "string list \<Rightarrow> Config \<Rightarrow> config_error option" where
  "AllowedFields allowed c =
     (case filter (\<lambda>name. name \<notin> set allowed) (GetFields c) of
        [] \<Rightarrow> None
      | name # _ \<Rightarrow> Some (UnexpectedOption name))"

fun checkAll :: "(Config \<Rightarrow> config_error option) list \<Rightarrow> Config \<Rightarrow> config_error option" where
  "checkAll [] c = None"
| "checkAll (check # checks) c =
     (case check c of Some err \<Rightarrow> Some err | None \<Rightarrow> checkAll checks c)"

definition ConfigChecked ::
  "(Config \<Rightarrow> config_error + 'p) \<Rightarrow> (Config \<Rightarrow> config_error option) list
    \<Rightarrow> Config \<Rightarrow> config_error + 'p" where
  "ConfigChecked constr checks c =
     (case checkAll checks c of Some err \<Rightarrow> Inl err | None \<Rightarrow> constr c)"

definition unpack_fromTo :: "cfg \<Rightarrow> config_error + fromTo" where
  "unpack_fromTo entry =
     (case entry of
        CDict d \<Rightarrow>
          (case map_of d ''from'' of
             None \<Rightarrow> Inl (Required ''from'')
           | Some (CStr from) \<Rightarrow>
               if from = [] then Inl (Required ''from'')
               else (case map_of d ''to'' of
                       None \<Rightarrow> Inr \<lparr>From = from, To = []\<rparr>
                     | Some (CStr to) \<Rightarrow> Inr \<lparr>From = from, To = to\<rparr>
                     | Some _ \<Rightarrow> Inl (WrongType ''to''))
           | Some _ \<Rightarrow> Inl (WrongType ''from''))
      | _ \<Rightarrow> Inl (WrongType ''fields''))"

fun unpack_entries :: "cfg list \<Rightarrow> config_error + fromTo list" where
  "unpack_entries [] = Inr []"
| "unpack_entries (entry # entries) =
     (case unpack_fromTo entry of
        Inl err \<Rightarrow> Inl err
      | Inr f \<Rightarrow>
          (case unpack_entries entries of
             Inl err \<Rightarrow> Inl err
           | Inr fs \<Rightarrow> Inr (f # fs)))"

definition unpack_bool :: "Config \<Rightarrow> string \<Rightarrow> bool \<Rightarrow> config_error + bool" where
  "unpack_bool c name current =
     (case map_of c name of
        None \<Rightarrow> Inr current
      | Some (CBool b) \<Rightarrow> Inr b
      | Some _ \<Rightarrow> Inl (WrongType name))"

definition Unpack :: "Config \<Rightarrow> urlParseConfig \<Rightarrow> config_error + urlParseConfig" where
  "Unpack c config =
     (case map_of c ''fields'' of
        None \<Rightarrow> Inl (Required ''fields'')
      | Some (CList entries) \<Rightarrow>
          if entries = [] then Inl (Required ''fields'')
          else
            (case unpack_entries entries of
               Inl err \<Rightarrow> Inl err
             | Inr fs \<Rightarrow>
                 (case unpack_bool c ''ignore_missing'' (IgnoreMissing config) of
                    Inl err \<Rightarrow> Inl err
                  | Inr im \<Rightarrow>
                      (case unpack_bool c ''fail_on_error'' (FailOnError config) of
                         Inl err \<Rightarrow> Inl err
                       | Inr foe \<Rightarrow>
                           Inr \<lparr>Fields = fs, IgnoreMissing = im, FailOnError = foe\<rparr>)))
      | Some _ \<Rightarrow> Inl (WrongType ''fields''))"

text \<open>
  \<^verbatim>\<open>New\<close> sets the defaults and unpacks the raw configuration over them. The processor it
  returns is its configuration; the logger is left out.
\<close>

definition New :: "Config \<Rightarrow> config_error + urlParseConfig" where
  "New c =
     (let config = \<lparr>Fields = [], IgnoreMissing = False, FailOnError = True\<rparr>
      in case Unpack c config of
           Inl err \<Rightarrow> Inl err
         | Inr config' \<Rightarrow> Inr config')"

text \<open>The constructor that \<^verbatim>\<open>init\<close> registers under the name \<^verbatim>\<open>urlparse\<close>.\<close>

definition urlparse_plugin :: "Config \<Rightarrow> config_error + urlParseConfig" where
  "urlparse_plugin =
     ConfigChecked New
       [RequireFields [''fields''],
        AllowedFields [''fields'', ''ignore_missing'', ''fail_on_error'']]"

definition lacks_from :: "cfg \<Rightarrow> bool" where
  "lacks_from entry \<longleftrightarrow> (case entry of CDict d \<Rightarrow> map_of d ''from'' = None | _ \<Rightarrow> True)"

subsection \<open>Paths and what a mapping reads and writes\<close>

text \<open>
  Two paths are independent when neither is a prefix of the other: a write at one
  cannot be seen at the other.
\<close>

definition independent :: "string list \<Rightarrow> string list \<Rightarrow> bool" where
  "independent p q \<longleftrightarrow> \<not> prefix p q \<and> \<not> prefix q p"

text \<open>Whether a put at a path succeeds: no proper prefix of the path holds a non-map.\<close>

fun can_put :: "string list \<Rightarrow> MapStr \<Rightarrow> bool" where
  "can_put [] m = False"
| "can_put [k] m = True"
| "can_put (k # ks) m =
     (case m k of None \<Rightarrow> True | Some (VMap sub) \<Rightarrow> can_put ks sub | Some _ \<Rightarrow> False)"

definition target :: "fromTo \<Rightarrow> string" where
  "target f = (if To f = [] then From f else To f)"

definition source_path :: "fromTo \<Rightarrow> string list" where
  "source_path f = splitDots (From f)"

definition target_path :: "fromTo \<Rightarrow> string list" where
  "target_path f = splitDots (target f)"

text \<open>The URL that a mapping finds at its source, when there is a string that parses.\<close>

definition parsed_source :: "Event \<Rightarrow> fromTo \<Rightarrow> URL option" where
  "parsed_source event f =
     (case GetValue event (From f) of
        Inr (VStr s) \<Rightarrow> (case url_Parse s of Inr u \<Rightarrow> Some u | Inl _ \<Rightarrow> None)
      | _ \<Rightarrow> None)"

text \<open>Best effort: a mapping that succeeds is applied, one that fails is skipped.\<close>

definition apply_field :: "urlParseConfig \<Rightarrow> Event \<Rightarrow> fromTo \<Rightarrow> Event" where
  "apply_field config event f =
     (case parseField config (From f) (To f) event of
        (event', None) \<Rightarrow> event'
      | (_, Some _) \<Rightarrow> event)"

text \<open>
  No write of a mapping reaches what a later mapping reads or writes, and no write of a
  later mapping reaches what an earlier one wrote.
\<close>

fun no_overlap :: "fromTo list \<Rightarrow> bool" where
  "no_overlap [] = True"
| "no_overlap (f # fs) =
     ((\<forall>g \<in> set fs. independent (target_path f) (source_path g)
                   \<and> independent (target_path f) (target_path g))
      \<and> no_overlap fs)"

text \<open>No write of any mapping reaches the source of any mapping, its own included.\<close>

definition sources_untouched :: "fromTo list \<Rightarrow> bool" where
  "sources_untouched fs \<longleftrightarrow>
     (\<forall>f \<in> set fs. \<forall>g \<in> set fs. independent (target_path f) (source_path g))"

text \<open>
  A mapping is settled in an event when applying it leaves the event as it is, without
  an error that would stop the run.
\<close>

definition settled :: "urlParseConfig \<Rightarrow> fromTo \<Rightarrow> Event \<Rightarrow> bool" where
  "settled config f event \<longleftrightarrow>
     fst (parseField config (From f) (To f) event) = event
     \<and> (FailOnError config \<longrightarrow> snd (parseField config (From f) (To f) event) = None)"

text \<open>The eight components of the URL of the empty string.\<close>

definition empty_components :: MapStr where
  "empty_components =
     [''scheme'' \<mapsto> VStr [], ''opaque'' \<mapsto> VStr [], ''hostname'' \<mapsto> VStr [],
      ''port'' \<mapsto> VStr [], ''path'' \<mapsto> VStr [], ''raw_path'' \<mapsto> VStr [],
      ''raw_query'' \<mapsto> VStr [], ''fragment'' \<mapsto> VStr []]"

definition component_keys :: "string set" where
  "component_keys =
     {''scheme'', ''opaque'', ''hostname'', ''port'', ''path'', ''raw_path'', ''raw_query'',
      ''fragment''}"

section \<open>Properties\<close>

subsection \<open>Reading and writing at paths\<close>

lemma independent_sym: "independent p q \<Longrightarrow> independent q p"
  by (auto simp: independent_def)

lemma independent_Cons: "independent (k # p) (k' # q) \<longleftrightarrow> k \<noteq> k' \<or> independent p q"
  by (auto simp: independent_def)

lemma independent_Nil [simp]: "\<not> independent [] q" "\<not> independent p []"
  by (auto simp: independent_def)

lemma splitDots_not_Nil [simp]: "splitDots s \<noteq> []"
  by (induction s) (auto split: list.splits)

lemma walk_get_empty [simp]: "walk_get p Map.empty = Inl ErrKeyNotFound"
  by (induction p "Map.empty :: MapStr" rule: walk_get.induct) auto

lemma can_put_empty [simp]: "p \<noteq> [] \<Longrightarrow> can_put p Map.empty"
  by (induction p "Map.empty :: MapStr" rule: can_put.induct) auto

lemma walk_get_same_head: "m' j = m j \<Longrightarrow> walk_get (j # js) m' = walk_get (j # js) m"
  by (cases js) auto

lemma can_put_same_head: "m' j = m j \<Longrightarrow> can_put (j # js) m' = can_put (j # js) m"
  by (cases js) auto

lemma walk_get_through:
  "m k = Some (VMap sub) \<Longrightarrow> js \<noteq> [] \<Longrightarrow> walk_get (k # js) m = walk_get js sub"
  by (cases js) auto

lemma can_put_through:
  "m k = Some (VMap sub) \<Longrightarrow> js \<noteq> [] \<Longrightarrow> can_put (k # js) m = can_put js sub"
  by (cases js) auto

lemma walk_get_absent: "m k = None \<Longrightarrow> walk_get (k # js) m = Inl ErrKeyNotFound"
  by (cases js) auto

lemma can_put_absent: "m k = None \<Longrightarrow> can_put (k # js) m"
  by (cases js) auto

lemma walk_put_other_head: "walk_put (k # ks) v m = Inr m' \<Longrightarrow> j \<noteq> k \<Longrightarrow> m' j = m j"
  by (cases ks) (auto split: option.splits val.splits sum.splits)

lemma walk_put_through:
  assumes "walk_put (k # ks) v m = Inr m'" and "ks \<noteq> []"
  obtains sub sub' where "m k = None \<and> sub = Map.empty \<or> m k = Some (VMap sub)"
    and "walk_put ks v sub = Inr sub'" and "m' = m(k \<mapsto> VMap sub')"
  using assms by (cases ks) (auto split: option.splits val.splits sum.splits)

lemma walk_put_empty: "p \<noteq> [] \<Longrightarrow> \<exists>m'. walk_put p v Map.empty = Inr m'"
proof (induction p)
  case Nil
  then show ?case by simp
next
  case (Cons k p)
  then show ?case by (cases p) auto
qed

lemma walk_put_can_put: "(\<exists>m'. walk_put p v m = Inr m') \<longleftrightarrow> can_put p m"
proof (induction p v m rule: walk_put.induct)
  case (3 k k' ks v m)
  from walk_put_empty[of "k' # ks" v] obtain e where "walk_put (k' # ks) v Map.empty = Inr e"
    by auto
  with 3 show ?case by (auto split: option.splits val.splits sum.splits)
qed auto

lemma walk_put_error:
  "walk_put p v m = Inl e \<Longrightarrow> e = (if p = [] then ErrKeyNotFound else ErrNotMapStr)"
  by (induction p v m rule: walk_put.induct) (auto split: option.splits val.splits sum.splits)

lemma walk_get_put_same: "walk_put p v m = Inr m' \<Longrightarrow> walk_get p m' = Inr v"
proof (induction p v m arbitrary: m' rule: walk_put.induct)
  case (3 k k' ks v m)
  then show ?case by (auto split: option.splits val.splits sum.splits)
qed auto

lemma walk_get_put_independent:
  "independent p q \<Longrightarrow> walk_put p v m = Inr m' \<Longrightarrow> walk_get q m' = walk_get q m"
proof (induction p arbitrary: q m m')
  case Nil
  then show ?case by simp
next
  case (Cons k ks)
  from Cons.prems(1) obtain j js where q: "q = j # js" by (cases q) auto
  show ?case
  proof (cases "j = k")
    case False
    with Cons.prems(2) have "m' j = m j" by (rule walk_put_other_head)
    then show ?thesis unfolding q by (rule walk_get_same_head)
  next
    case True
    with Cons.prems(1) q have ind: "independent ks js" by (simp add: independent_Cons)
    then have ne: "ks \<noteq> []" "js \<noteq> []" by auto
    from Cons.prems(2) ne(1) obtain sub sub'
      where sub: "m k = None \<and> sub = Map.empty \<or> m k = Some (VMap sub)"
        and put: "walk_put ks v sub = Inr sub'" and m': "m' = m(k \<mapsto> VMap sub')"
      by (rule walk_put_through)
    have "walk_get q m' = walk_get js sub'"
      unfolding q True using ne(2) by (intro walk_get_through) (simp add: m')
    also have "\<dots> = walk_get js sub" using ind put by (rule Cons.IH)
    also have "\<dots> = walk_get q m"
      unfolding q True using sub ne(2) by (auto simp: walk_get_absent walk_get_through)
    finally show ?thesis .
  qed
qed

lemma can_put_put_independent:
  "independent p q \<Longrightarrow> walk_put p v m = Inr m' \<Longrightarrow> can_put q m' = can_put q m"
proof (induction p arbitrary: q m m')
  case Nil
  then show ?case by simp
next
  case (Cons k ks)
  from Cons.prems(1) obtain j js where q: "q = j # js" by (cases q) auto
  show ?case
  proof (cases "j = k")
    case False
    with Cons.prems(2) have "m' j = m j" by (rule walk_put_other_head)
    then show ?thesis unfolding q by (rule can_put_same_head)
  next
    case True
    with Cons.prems(1) q have ind: "independent ks js" by (simp add: independent_Cons)
    then have ne: "ks \<noteq> []" "js \<noteq> []" by auto
    from Cons.prems(2) ne(1) obtain sub sub'
      where sub: "m k = None \<and> sub = Map.empty \<or> m k = Some (VMap sub)"
        and put: "walk_put ks v sub = Inr sub'" and m': "m' = m(k \<mapsto> VMap sub')"
      by (rule walk_put_through)
    have "can_put q m' = can_put js sub'"
      unfolding q True using ne(2) by (intro can_put_through) (simp add: m')
    also have "\<dots> = can_put js sub" using ind put by (rule Cons.IH)
    also have "\<dots> = can_put q m"
      unfolding q True using sub ne(2) by (auto simp: can_put_absent can_put_through)
    finally show ?thesis .
  qed
qed

lemma walk_put_get_id: "walk_get p m = Inr v \<Longrightarrow> walk_put p v m = Inr m"
  by (induction p m rule: walk_get.induct) (auto split: option.splits val.splits sum.splits)

lemma walk_get_can_put: "walk_get p m = Inr v \<Longrightarrow> can_put p m"
  by (induction p m rule: walk_get.induct) (auto split: option.splits val.splits sum.splits)

lemma Event_restore [simp]: "(event' :: Event)\<lparr>EventFields := EventFields event\<rparr> = event"
  by simp

lemma PutValue_Inr_iff:
  "(\<exists>event'. PutValue event key v = Inr event') \<longleftrightarrow> can_put (splitDots key) (EventFields event)"
  using walk_put_can_put[of "splitDots key" v "EventFields event"]
  by (auto simp: PutValue_def MapStr_Put_def split: sum.splits)

lemma PutValue_Inl:
  "PutValue event key v = Inl e
    \<Longrightarrow> e = ErrNotMapStr \<and> \<not> can_put (splitDots key) (EventFields event)"
  using walk_put_can_put[of "splitDots key" v "EventFields event"]
    walk_put_error[of "splitDots key" v "EventFields event" e]
  by (auto simp: PutValue_def MapStr_Put_def split: sum.splits)

lemma GetValue_PutValue_same:
  "PutValue event key v = Inr event' \<Longrightarrow> GetValue event' key = Inr v"
  by (auto simp: PutValue_def MapStr_Put_def GetValue_def MapStr_GetValue_def
      split: sum.splits dest: walk_get_put_same)

lemma GetValue_PutValue_independent:
  "independent (splitDots key) (splitDots key') \<Longrightarrow> PutValue event key v = Inr event'
    \<Longrightarrow> GetValue event' key' = GetValue event key'"
  by (auto simp: PutValue_def MapStr_Put_def GetValue_def MapStr_GetValue_def
      split: sum.splits dest: walk_get_put_independent)

lemma can_put_PutValue_independent:
  "independent (splitDots key) p \<Longrightarrow> PutValue event key v = Inr event'
    \<Longrightarrow> can_put p (EventFields event') = can_put p (EventFields event)"
  by (auto simp: PutValue_def MapStr_Put_def split: sum.splits dest: can_put_put_independent)

lemma PutValue_GetValue_id: "GetValue event key = Inr v \<Longrightarrow> PutValue event key v = Inr event"
  by (auto simp: PutValue_def MapStr_Put_def GetValue_def MapStr_GetValue_def
      dest: walk_put_get_id)

subsection \<open>The loop of Run\<close>

lemma parseField_Fields [simp]:
  "parseField (config\<lparr>Fields := fs\<rparr>) from to event = parseField config from to event"
  by (simp add: parseField_def split: sum.splits)

lemma run_fields_Fields [simp]:
  "run_fields (config\<lparr>Fields := fs\<rparr>) backup rest event = run_fields config backup rest event"
  by (induction rest arbitrary: event) (auto split: prod.splits option.splits)

lemma parseField_error_unchanged:
  "parseField config from to event = (event', Some err) \<Longrightarrow> event' = event"
  by (auto simp: parseField_def Let_def split: sum.splits val.splits if_splits)

lemma run_fields_append:
  "run_fields config backup pre event = (event1, None)
    \<Longrightarrow> run_fields config backup (pre @ rest) event = run_fields config backup rest event1"
  by (induction pre arbitrary: event) (auto split: prod.splits option.splits if_splits)

lemma run_fields_best_effort:
  "\<not> FailOnError config
    \<Longrightarrow> run_fields config backup fs event = (foldl (apply_field config) event fs, None)"
proof (induction fs arbitrary: event)
  case Nil
  then show ?case by simp
next
  case (Cons f fs)
  then show ?case
    by (auto simp: apply_field_def split: prod.splits option.splits
        dest: parseField_error_unchanged)
qed

lemma parseField_frame:
  assumes "parseField config (From f) (To f) event = (event', eo)"
    and "independent (target_path f) (splitDots key)"
  shows "GetValue event' key = GetValue event key"
  using assms
  by (auto simp: parseField_def Let_def target_path_def target_def
      split: sum.splits val.splits if_splits dest: GetValue_PutValue_independent)

lemma apply_field_frame:
  "independent (target_path f) (splitDots key)
    \<Longrightarrow> GetValue (apply_field config event f) key = GetValue event key"
  using parseField_frame[of config f event _ _ key]
  by (auto simp: apply_field_def split: prod.splits option.splits)

lemma foldl_apply_field_frame:
  "\<forall>f \<in> set fs. independent (target_path f) (splitDots key)
    \<Longrightarrow> GetValue (foldl (apply_field config) event fs) key = GetValue event key"
  by (induction fs arbitrary: event) (auto simp: apply_field_frame)

lemma parsed_source_cong:
  "GetValue event' (From g) = GetValue event (From g)
    \<Longrightarrow> parsed_source event' g = parsed_source event g"
  by (simp add: parsed_source_def)

lemma parseField_success:
  assumes "parsed_source event f = Some u"
    and "PutValue event (target f) (VMap (components u)) = Inr event'"
  shows "parseField config (From f) (To f) event = (event', None)"
  using assms
  by (auto simp: parsed_source_def parseField_def target_def
      split: sum.splits val.splits if_splits)

lemma run_fields_all_succeed:
  assumes "\<forall>f \<in> set fs. parsed_source event f \<noteq> None
             \<and> can_put (target_path f) (EventFields event)"
    and "no_overlap fs"
  shows "\<exists>event'. run_fields config backup fs event = (event', None)
      \<and> (\<forall>f \<in> set fs. \<exists>u. parsed_source event f = Some u
            \<and> GetValue event' (target f) = Inr (VMap (components u)))
      \<and> (\<forall>key. (\<forall>f \<in> set fs. independent (target_path f) (splitDots key))
            \<longrightarrow> GetValue event' key = GetValue event key)
      \<and> (\<forall>p. (\<forall>f \<in> set fs. independent (target_path f) p)
            \<longrightarrow> can_put p (EventFields event') = can_put p (EventFields event))"
  using assms
proof (induction fs arbitrary: event)
  case Nil
  then show ?case by simp
next
  case (Cons f fs)
  from Cons.prems(1) obtain u where u: "parsed_source event f = Some u"
    and "can_put (target_path f) (EventFields event)" by auto
  then obtain event1 where put: "PutValue event (target f) (VMap (components u)) = Inr event1"
    using PutValue_Inr_iff[of event "target f"] by (auto simp: target_path_def)
  from u put have step: "parseField config (From f) (To f) event = (event1, None)"
    by (rule parseField_success)
  from Cons.prems(2) have sep:
    "\<forall>g \<in> set fs. independent (target_path f) (source_path g)
                 \<and> independent (target_path f) (target_path g)"
    and rest: "no_overlap fs" by auto
  have get1: "GetValue event1 key = GetValue event key"
    if "independent (target_path f) (splitDots key)" for key
    using that GetValue_PutValue_independent[OF _ put, of key] by (simp add: target_path_def)
  have can1: "can_put p (EventFields event1) = can_put p (EventFields event)"
    if "independent (target_path f) p" for p
    using that can_put_PutValue_independent[OF _ put, of p] by (simp add: target_path_def)
  have src1: "parsed_source event1 g = parsed_source event g" if "g \<in> set fs" for g
    using that sep by (intro parsed_source_cong get1) (auto simp: source_path_def)
  have "\<forall>g \<in> set fs. parsed_source event1 g \<noteq> None
          \<and> can_put (target_path g) (EventFields event1)"
    using Cons.prems(1) sep by (auto simp: src1 can1)
  from Cons.IH[OF this rest] obtain event' where
    run: "run_fields config backup fs event1 = (event', None)"
    and tgt: "\<forall>g \<in> set fs. \<exists>u. parsed_source event1 g = Some u
            \<and> GetValue event' (target g) = Inr (VMap (components u))"
    and get: "\<forall>key. (\<forall>g \<in> set fs. independent (target_path g) (splitDots key))
            \<longrightarrow> GetValue event' key = GetValue event1 key"
    and can: "\<forall>p. (\<forall>g \<in> set fs. independent (target_path g) p)
            \<longrightarrow> can_put p (EventFields event') = can_put p (EventFields event1)"
    by blast
  have "run_fields config backup (f # fs) event = (event', None)"
    using step run by simp
  moreover have "\<exists>u. parsed_source event f = Some u
      \<and> GetValue event' (target f) = Inr (VMap (components u))"
  proof -
    have "\<forall>g \<in> set fs. independent (target_path g) (splitDots (target f))"
      using sep by (auto simp: target_path_def dest: independent_sym)
    with get have "GetValue event' (target f) = GetValue event1 (target f)" by blast
    with u GetValue_PutValue_same[OF put] show ?thesis by simp
  qed
  moreover have "\<forall>g \<in> set fs. \<exists>u. parsed_source event g = Some u
      \<and> GetValue event' (target g) = Inr (VMap (components u))"
    using tgt src1 by auto
  moreover have "\<forall>key. (\<forall>g \<in> set (f # fs). independent (target_path g) (splitDots key))
      \<longrightarrow> GetValue event' key = GetValue event key"
    using get get1 by auto
  moreover have "\<forall>p. (\<forall>g \<in> set (f # fs). independent (target_path g) p)
      \<longrightarrow> can_put p (EventFields event') = can_put p (EventFields event)"
    using can can1 by auto
  ultimately show ?case by auto
qed

lemma put_fixed_transfer:
  assumes "PutValue s key v = Inr s" and "GetValue s' key = GetValue s key"
  shows "PutValue s' key v = Inr s'"
  using GetValue_PutValue_same[OF assms(1)] assms(2) by (intro PutValue_GetValue_id) simp

lemma put_fail_transfer:
  assumes "PutValue s key v = Inl e"
    and "can_put (splitDots key) (EventFields s') = can_put (splitDots key) (EventFields s)"
  shows "PutValue s' key v = Inl e"
proof (cases "PutValue s' key v")
  case (Inl e')
  with PutValue_Inl[OF assms(1)] PutValue_Inl[OF Inl] show ?thesis by simp
next
  case (Inr s'')
  then have "can_put (splitDots key) (EventFields s')" using PutValue_Inr_iff by blast
  with PutValue_Inl[OF assms(1)] assms(2) show ?thesis by simp
qed

lemma parseField_transfer:
  assumes "parseField config (From f) (To f) s = (s, eo)"
    and "GetValue s' (From f) = GetValue s (From f)"
    and "GetValue s' (target f) = GetValue s (target f)"
    and "can_put (target_path f) (EventFields s') = can_put (target_path f) (EventFields s)"
  shows "parseField config (From f) (To f) s' = (s', eo)"
proof (cases "GetValue s (From f)")
  case (Inl err)
  with assms(1,2) show ?thesis by (auto simp: parseField_def split: if_splits)
next
  case (Inr v)
  show ?thesis
  proof (cases "parsed_source s f")
    case None
    with Inr assms(1,2) show ?thesis
      by (auto simp: parseField_def parsed_source_def split: val.splits sum.splits)
  next
    case (Some u)
    then obtain str where str: "v = VStr str" "url_Parse str = Inr u"
      using Inr by (auto simp: parsed_source_def split: val.splits sum.splits)
    show ?thesis
    proof (cases "PutValue s (target f) (VMap (components u))")
      case (Inl e)
      from put_fail_transfer[OF Inl] assms(4)
      have "PutValue s' (target f) (VMap (components u)) = Inl e"
        by (simp add: target_path_def)
      with Inl Inr str assms(1,2) show ?thesis
        by (simp add: parseField_def target_def)
    next
      case (Inr s2)
      with \<open>GetValue s (From f) = Inr v\<close> str assms(1) have "s2 = s" "eo = None"
        by (simp_all add: parseField_def target_def)
      with Inr have "PutValue s (target f) (VMap (components u)) = Inr s" by simp
      from put_fixed_transfer[OF this assms(3)] \<open>GetValue s (From f) = Inr v\<close> str assms(2)
        \<open>eo = None\<close>
      show ?thesis by (simp add: parseField_def target_def)
    qed
  qed
qed

lemma parseField_cases:
  assumes "parseField config (From g) (To g) s = (s', eg)"
  obtains "s' = s"
  | str u where "GetValue s (From g) = Inr (VStr str)" and "url_Parse str = Inr u"
      and "PutValue s (target g) (VMap (components u)) = Inr s'" and "eg = None"
  using assms
  by (auto simp: parseField_def target_def Let_def split: sum.splits val.splits if_splits)

lemma parseField_own_step:
  assumes "parseField config (From f) (To f) s = (s1, eo)"
    and "independent (target_path f) (source_path f)"
  shows "parseField config (From f) (To f) s1 = (s1, eo)"
  using assms(1)
proof (cases rule: parseField_cases)
  case 1
  with assms(1) show ?thesis by simp
next
  case (2 str u)
  from GetValue_PutValue_independent[OF _ 2(3), of "From f"] assms(2)
  have src: "GetValue s1 (From f) = GetValue s (From f)"
    by (simp add: target_path_def source_path_def)
  from GetValue_PutValue_same[OF 2(3)]
  have "PutValue s1 (target f) (VMap (components u)) = Inr s1"
    by (rule PutValue_GetValue_id)
  with src 2 show ?thesis by (simp add: parseField_def target_def)
qed

lemma parseField_other_step:
  assumes "parseField config (From f) (To f) s = (s, eo)"
    and "parseField config (From g) (To g) s = (s', eg)"
    and "independent (target_path g) (source_path f)"
    and "independent (target_path g) (target_path f)"
  shows "parseField config (From f) (To f) s' = (s', eo)"
  using assms(2)
proof (cases rule: parseField_cases)
  case 1
  with assms(1) show ?thesis by simp
next
  case (2 str u)
  show ?thesis
  proof (rule parseField_transfer[OF assms(1)])
    show "GetValue s' (From f) = GetValue s (From f)"
      using GetValue_PutValue_independent[OF _ 2(3), of "From f"] assms(3)
      by (simp add: target_path_def source_path_def)
    show "GetValue s' (target f) = GetValue s (target f)"
      using GetValue_PutValue_independent[OF _ 2(3), of "target f"] assms(4)
      by (simp add: target_path_def)
    show "can_put (target_path f) (EventFields s') = can_put (target_path f) (EventFields s)"
      using can_put_PutValue_independent[OF _ 2(3), of "target_path f"] assms(4)
      by (simp add: target_path_def)
  qed
qed

lemma run_fields_keeps_settled:
  assumes "run_fields config backup fs s = (final, None)"
    and "parseField config (From f) (To f) s = (s, eo)"
    and "\<forall>g \<in> set fs. independent (target_path g) (source_path f)
                   \<and> independent (target_path g) (target_path f)"
  shows "parseField config (From f) (To f) final = (final, eo)"
  using assms
proof (induction fs arbitrary: s)
  case Nil
  then show ?case by simp
next
  case (Cons g fs)
  obtain s' eg where step: "parseField config (From g) (To g) s = (s', eg)"
    by (cases "parseField config (From g) (To g) s")
  with Cons.prems(1) have run: "run_fields config backup fs s' = (final, None)"
    by (auto split: option.splits if_splits)
  from Cons.prems(3) have "independent (target_path g) (source_path f)"
    "independent (target_path g) (target_path f)" by auto
  from parseField_other_step[OF Cons.prems(2) step this]
  have "parseField config (From f) (To f) s' = (s', eo)" .
  from Cons.IH[OF run this] Cons.prems(3) show ?case by simp
qed

lemma run_fields_settles:
  assumes "run_fields config backup fs s = (final, None)"
    and "\<forall>f \<in> set fs. independent (target_path f) (source_path f)"
    and "\<forall>f \<in> set fs. \<forall>g \<in> set fs. independent (target_path g) (source_path f)"
    and "no_overlap fs"
  shows "\<forall>f \<in> set fs. settled config f final"
  using assms
proof (induction fs arbitrary: s)
  case Nil
  then show ?case by simp
next
  case (Cons f fs)
  obtain s1 eo where step: "parseField config (From f) (To f) s = (s1, eo)"
    by (cases "parseField config (From f) (To f) s")
  with Cons.prems(1) have run: "run_fields config backup fs s1 = (final, None)"
    and ok: "FailOnError config \<longrightarrow> eo = None"
    by (auto split: option.splits if_splits)
  from Cons.prems have "\<forall>f \<in> set fs. settled config f final"
    by (intro Cons.IH[OF run]) auto
  moreover have "settled config f final"
  proof -
    from Cons.prems(2) have "independent (target_path f) (source_path f)" by simp
    from parseField_own_step[OF step this]
    have own: "parseField config (From f) (To f) s1 = (s1, eo)" .
    have "\<forall>g \<in> set fs. independent (target_path g) (source_path f)
                   \<and> independent (target_path g) (target_path f)"
      using Cons.prems(3,4) by (auto dest: independent_sym)
    from run_fields_keeps_settled[OF run own this] ok show ?thesis
      by (simp add: settled_def)
  qed
  ultimately show ?case by simp
qed

lemma run_fields_settled:
  "\<forall>f \<in> set fs. settled config f s \<Longrightarrow> run_fields config backup fs s = (s, None)"
proof (induction fs)
  case Nil
  then show ?case by simp
next
  case (Cons f fs)
  then have "settled config f s" and rest: "run_fields config backup fs s = (s, None)" by auto
  then obtain eo where "parseField config (From f) (To f) s = (s, eo)"
    and "FailOnError config \<longrightarrow> eo = None"
    by (cases "parseField config (From f) (To f) s") (auto simp: settled_def)
  with rest show ?case by (auto split: option.splits)
qed

subsection \<open>Concrete URLs and paths\<close>

lemma splitDots_request: "splitDots ''request'' = [''request'']"
  by code_simp

lemma splitDots_error_message: "splitDots ''error.message'' = [''error'', ''message'']"
  by code_simp

lemma url_Parse_example:
  "url_Parse ''https://example.com:8443/a/b?x=1#frag'' =
     Inr \<lparr>Scheme = ''https'', Opaque = [], Host = ''example.com:8443'', Path = ''/a/b'',
          RawPath = [], RawQuery = ''x=1'', Fragment = ''frag''\<rparr>"
  by code_simp

lemma splitHostPort_example: "splitHostPort ''example.com:8443'' = (''example.com'', ''8443'')"
  by code_simp

lemma url_Parse_h: "url_Parse ''//h'' = Inr (emptyURL\<lparr>Host := ''h''\<rparr>)"
  by code_simp

lemma splitDots_letters:
  "splitDots ''a'' = [''a'']" "splitDots ''b'' = [''b'']" "splitDots ''c'' = [''c'']"
  "splitDots ''d'' = [''d'']"
  by code_simp+

lemma splitDots_a_b: "splitDots ''a.b'' = [''a'', ''b'']"
  by code_simp

lemma url_Parse_empty: "url_Parse [] = Inr emptyURL"
  by code_simp

lemma components_emptyURL: "components emptyURL = empty_components"
  by (simp add: components_def empty_components_def emptyURL_def Hostname_def Port_def
      splitHostPort_def LastIndexByte_def)

lemma dom_components: "dom (components u) = component_keys"
  by (auto simp: components_def component_keys_def split: if_splits)

lemma splitDots_b_c: "splitDots ''b.c'' = [''b'', ''c'']"
  by code_simp

lemma splitDots_out_parsed: "splitDots ''out.parsed'' = [''out'', ''parsed'']"
  by code_simp

lemma splitDots_x: "splitDots ''x'' = [''x'']"
  "splitDots ''x.scheme.foo'' = [''x'', ''scheme'', ''foo'']"
  by code_simp+

subsection \<open>Scenarios\<close>

text \<open>
  C4: for the event \<open>{request: "https://example.com:8443/a/b?x=1#frag"}\<close> and the single
  mapping from \<open>request\<close> to \<open>request\<close>, Run returns no error and the event in which
  \<open>request\<close> is the map of the eight components: scheme \<open>https\<close>, opaque empty, hostname
  \<open>example.com\<close>, port \<open>8443\<close>, path \<open>/a/b\<close>, raw path empty, raw query \<open>x=1\<close>, fragment
  \<open>frag\<close>. This holds for both values of each flag.
\<close>

theorem Run_request_example:
  "Run \<lparr>Fields = [\<lparr>From = ''request'', To = ''request''\<rparr>],
        IgnoreMissing = ignore_missing, FailOnError = fail_on_error\<rparr>
     \<lparr>EventFields = [''request'' \<mapsto> VStr ''https://example.com:8443/a/b?x=1#frag'']\<rparr>
   = (\<lparr>EventFields = [''request'' \<mapsto> VMap
         [''scheme'' \<mapsto> VStr ''https'',
          ''opaque'' \<mapsto> VStr [],
          ''hostname'' \<mapsto> VStr ''example.com'',
          ''port'' \<mapsto> VStr ''8443'',
          ''path'' \<mapsto> VStr ''/a/b'',
          ''raw_path'' \<mapsto> VStr [],
          ''raw_query'' \<mapsto> VStr ''x=1'',
          ''fragment'' \<mapsto> VStr ''frag'']]\<rparr>, None)"
  by (simp add: Run_def parseField_def GetValue_def PutValue_def MapStr_GetValue_def
      MapStr_Put_def splitDots_request url_Parse_example components_def Hostname_def
      Port_def splitHostPort_example)

text \<open>
  C6: for the event \<open>{request: 42}\<close> and a mapping from \<open>request\<close>, with \<open>fail_on_error\<close>
  false, Run returns the event as it was (nothing is written at any target, no
  \<open>error.message\<close> is added) and no error. This holds for every target and for both
  values of \<open>ignore_missing\<close>.
\<close>

theorem Run_wrong_type_best_effort:
  "Run \<lparr>Fields = [\<lparr>From = ''request'', To = to\<rparr>],
        IgnoreMissing = ignore_missing, FailOnError = False\<rparr>
     \<lparr>EventFields = [''request'' \<mapsto> VInt 42]\<rparr>
   = (\<lparr>EventFields = [''request'' \<mapsto> VInt 42]\<rparr>, None)"
  by (simp add: Run_def parseField_def GetValue_def MapStr_GetValue_def splitDots_request)

subsection \<open>Strict mode\<close>

text \<open>
  C1, as amended: under \<open>fail_on_error\<close>, when the mappings before \<open>f\<close> have succeeded
  and \<open>f\<close> fails with \<open>err\<close>, Run returns \<open>err\<close> and the input event with the message
  put at \<open>error.message\<close>. The writes of the earlier mappings are gone (the result is
  stated on the input event), the mappings after \<open>f\<close> play no part (the result does
  not mention them), and every field at a path independent of \<open>error.message\<close> reads as
  in the input. The message is there when \<open>error.message\<close> can be written in the input
  event; when it cannot (\<open>error\<close> holds a value that is not a map), the event is returned
  exactly as it arrived, because Run drops the result of that put.
\<close>

theorem Run_rollback:
  assumes "FailOnError config" and "Fields config = pre @ f # post"
    and "Run (config\<lparr>Fields := pre\<rparr>) event = (event1, None)"
    and "parseField config (From f) (To f) event1 = (event2, Some err)"
  shows "snd (Run config event) = Some err
    \<and> fst (Run config event) =
        (case PutValue event ''error.message'' (VStr (errMsg err)) of
           Inl _ \<Rightarrow> event | Inr event' \<Rightarrow> event')
    \<and> (can_put [''error'', ''message''] (EventFields event)
        \<longrightarrow> GetValue (fst (Run config event)) ''error.message'' = Inr (VStr (errMsg err)))
    \<and> (\<not> can_put [''error'', ''message''] (EventFields event)
        \<longrightarrow> fst (Run config event) = event)
    \<and> (\<forall>key. independent [''error'', ''message''] (splitDots key)
        \<longrightarrow> GetValue (fst (Run config event)) key = GetValue event key)"
proof -
  let ?b = "EventFields event"
  let ?put = "PutValue event ''error.message'' (VStr (errMsg err))"
  from assms(1,3) have "run_fields config ?b pre event = (event1, None)"
    by (simp add: Run_def Clone_def)
  then have "run_fields config ?b (pre @ f # post) event = run_fields config ?b (f # post) event1"
    by (rule run_fields_append)
  with assms(1,2,4) have "Run config event = (restore ?b err event2, Some err)"
    by (simp add: Run_def Clone_def)
  then have run: "Run config event = ((case ?put of Inl _ \<Rightarrow> event | Inr event' \<Rightarrow> event'), Some err)"
    by (simp add: restore_def)
  show ?thesis
  proof (cases ?put)
    case (Inl e)
    with PutValue_Inl[OF Inl] run show ?thesis
      by (simp add: splitDots_error_message)
  next
    case (Inr event')
    have "can_put (splitDots ''error.message'') (EventFields event)"
      using PutValue_Inr_iff[of event "''error.message''" "VStr (errMsg err)"] Inr by auto
    with Inr run GetValue_PutValue_same[OF Inr] GetValue_PutValue_independent[OF _ Inr]
    show ?thesis by (simp add: splitDots_error_message)
  qed
qed

theorem Run_rollback_witness:
  "snd (Run \<lparr>Fields = [\<lparr>From = ''a'', To = ''b''\<rparr>, \<lparr>From = ''c'', To = []\<rparr>,
                       \<lparr>From = ''a'', To = ''d''\<rparr>],
             IgnoreMissing = False, FailOnError = True\<rparr>
          \<lparr>EventFields = [''a'' \<mapsto> VStr ''//h'']\<rparr>)
     = Some (FetchError ''c'' ErrKeyNotFound)
   \<and> fst (Run \<lparr>Fields = [\<lparr>From = ''a'', To = ''b''\<rparr>, \<lparr>From = ''c'', To = []\<rparr>,
                         \<lparr>From = ''a'', To = ''d''\<rparr>],
               IgnoreMissing = False, FailOnError = True\<rparr>
            \<lparr>EventFields = [''a'' \<mapsto> VStr ''//h'']\<rparr>)
     = \<lparr>EventFields =
          [''a'' \<mapsto> VStr ''//h'',
           ''error'' \<mapsto> VMap [''message'' \<mapsto> VStr (errMsg (FetchError ''c'' ErrKeyNotFound))]]\<rparr>"
proof -
  let ?f1 = "\<lparr>From = ''a'', To = ''b''\<rparr>" and ?f2 = "\<lparr>From = ''c'', To = []\<rparr>"
    and ?f3 = "\<lparr>From = ''a'', To = ''d''\<rparr>"
  let ?config = "\<lparr>Fields = [?f1, ?f2, ?f3], IgnoreMissing = False, FailOnError = True\<rparr>"
  let ?event = "\<lparr>EventFields = [''a'' \<mapsto> VStr ''//h'']\<rparr>"
  let ?event1 = "\<lparr>EventFields =
     [''a'' \<mapsto> VStr ''//h'', ''b'' \<mapsto> VMap (components (emptyURL\<lparr>Host := ''h''\<rparr>))]\<rparr>"
  have 1: "FailOnError ?config" by simp
  have 2: "Fields ?config = [?f1] @ ?f2 # [?f3]" by simp
  have 3: "Run (?config\<lparr>Fields := [?f1]\<rparr>) ?event = (?event1, None)"
    by (simp add: Run_def parseField_def GetValue_def PutValue_def MapStr_GetValue_def
        MapStr_Put_def splitDots_letters url_Parse_h Clone_def)
  have 4: "parseField ?config (From ?f2) (To ?f2) ?event1
      = (?event1, Some (FetchError ''c'' ErrKeyNotFound))"
    by (simp add: parseField_def GetValue_def MapStr_GetValue_def splitDots_letters)
  from Run_rollback[OF 1 2 3 4] show ?thesis
    by (simp add: PutValue_def MapStr_Put_def splitDots_error_message)
qed

text \<open>
  The claim as stated, with the diagnostic always added, fails where \<open>error\<close> is a
  string: the only mapping fails, and the event comes back without \<open>error.message\<close>.
\<close>

theorem Run_rollback_unwritable_counterexample:
  "parseField \<lparr>Fields = [\<lparr>From = ''request'', To = []\<rparr>], IgnoreMissing = False, FailOnError = True\<rparr>
      ''request'' [] \<lparr>EventFields = [''error'' \<mapsto> VStr ''boom'']\<rparr>
     = (\<lparr>EventFields = [''error'' \<mapsto> VStr ''boom'']\<rparr>, Some (FetchError ''request'' ErrKeyNotFound))
   \<and> Run \<lparr>Fields = [\<lparr>From = ''request'', To = []\<rparr>], IgnoreMissing = False, FailOnError = True\<rparr>
       \<lparr>EventFields = [''error'' \<mapsto> VStr ''boom'']\<rparr>
     = (\<lparr>EventFields = [''error'' \<mapsto> VStr ''boom'']\<rparr>, Some (FetchError ''request'' ErrKeyNotFound))
   \<and> GetValue (fst (Run \<lparr>Fields = [\<lparr>From = ''request'', To = []\<rparr>], IgnoreMissing = False, FailOnError = True\<rparr>
       \<lparr>EventFields = [''error'' \<mapsto> VStr ''boom'']\<rparr>)) ''error.message'' = Inl ErrNotMapStr"
  by (simp add: Run_def parseField_def restore_def GetValue_def PutValue_def MapStr_GetValue_def
      MapStr_Put_def splitDots_request splitDots_error_message Clone_def)

subsection \<open>Best effort\<close>

text \<open>
  C3: with \<open>fail_on_error\<close> false, Run returns no error, and the event it returns is the
  input event with the mappings applied in configured order, each one that succeeds
  written and each one that fails skipped (\<^const>\<open>apply_field\<close>). Nothing else is written:
  unless a configured target overlaps it, \<open>error.message\<close> reads as in the input event.
\<close>

theorem Run_best_effort:
  assumes "\<not> FailOnError config"
  shows "snd (Run config event) = None
    \<and> fst (Run config event) = foldl (apply_field config) event (Fields config)
    \<and> ((\<forall>f \<in> set (Fields config). independent (target_path f) [''error'', ''message''])
        \<longrightarrow> GetValue (fst (Run config event)) ''error.message''
            = GetValue event ''error.message'')"
  using assms foldl_apply_field_frame[of "Fields config" "''error.message''" config event]
  by (simp add: Run_def run_fields_best_effort splitDots_error_message)

theorem Run_best_effort_witness:
  "snd (Run \<lparr>Fields = [\<lparr>From = ''c'', To = []\<rparr>, \<lparr>From = ''a'', To = ''b''\<rparr>],
             IgnoreMissing = False, FailOnError = False\<rparr>
          \<lparr>EventFields = [''a'' \<mapsto> VStr ''//h'', ''c'' \<mapsto> VInt 42]\<rparr>) = None
   \<and> fst (Run \<lparr>Fields = [\<lparr>From = ''c'', To = []\<rparr>, \<lparr>From = ''a'', To = ''b''\<rparr>],
             IgnoreMissing = False, FailOnError = False\<rparr>
          \<lparr>EventFields = [''a'' \<mapsto> VStr ''//h'', ''c'' \<mapsto> VInt 42]\<rparr>)
     = \<lparr>EventFields = [''a'' \<mapsto> VStr ''//h'', ''c'' \<mapsto> VInt 42,
                        ''b'' \<mapsto> VMap (components (emptyURL\<lparr>Host := ''h''\<rparr>))]\<rparr>
   \<and> GetValue (fst (Run \<lparr>Fields = [\<lparr>From = ''c'', To = []\<rparr>, \<lparr>From = ''a'', To = ''b''\<rparr>],
             IgnoreMissing = False, FailOnError = False\<rparr>
          \<lparr>EventFields = [''a'' \<mapsto> VStr ''//h'', ''c'' \<mapsto> VInt 42]\<rparr>)) ''error.message''
     = Inl ErrKeyNotFound"
  using Run_best_effort[of "\<lparr>Fields = [\<lparr>From = ''c'', To = []\<rparr>, \<lparr>From = ''a'', To = ''b''\<rparr>],
             IgnoreMissing = False, FailOnError = False\<rparr>"
          "\<lparr>EventFields = [''a'' \<mapsto> VStr ''//h'', ''c'' \<mapsto> VInt 42]\<rparr>"]
  by (simp add: apply_field_def parseField_def GetValue_def PutValue_def MapStr_GetValue_def
      MapStr_Put_def splitDots_letters splitDots_error_message url_Parse_h target_path_def
      target_def independent_def)

subsection \<open>Missing fields and other lookup failures\<close>

text \<open>
  C5: with \<open>ignore_missing\<close>, a mapping whose source is not found is a no-op:
  \<open>parseField\<close> returns the event unchanged and no error, and the loop of Run goes on
  with the next mapping as if the mapping were not in the list, for every backup and
  under either value of \<open>fail_on_error\<close>.
\<close>

theorem ignore_missing_skips:
  assumes "IgnoreMissing config" and "GetValue event (From f) = Inl ErrKeyNotFound"
  shows "parseField config (From f) (To f) event = (event, None)
    \<and> run_fields config backup (f # rest) event = run_fields config backup rest event
    \<and> Run (config\<lparr>Fields := f # rest\<rparr>) event = Run (config\<lparr>Fields := rest\<rparr>) event"
  using assms by (simp add: parseField_def Run_def)

theorem ignore_missing_skips_witness:
  "Run \<lparr>Fields = [\<lparr>From = ''c'', To = ''d''\<rparr>, \<lparr>From = ''a'', To = ''b''\<rparr>],
        IgnoreMissing = True, FailOnError = True\<rparr>
     \<lparr>EventFields = [''a'' \<mapsto> VStr ''//h'']\<rparr>
   = (\<lparr>EventFields = [''a'' \<mapsto> VStr ''//h'',
                       ''b'' \<mapsto> VMap (components (emptyURL\<lparr>Host := ''h''\<rparr>))]\<rparr>, None)"
proof -
  let ?config = "\<lparr>Fields = [], IgnoreMissing = True, FailOnError = True\<rparr>"
  let ?event = "\<lparr>EventFields = [''a'' \<mapsto> VStr ''//h'']\<rparr>"
  let ?f = "\<lparr>From = ''c'', To = ''d''\<rparr>"
  have 1: "IgnoreMissing ?config" by simp
  have 2: "GetValue ?event (From ?f) = Inl ErrKeyNotFound"
    by (simp add: GetValue_def MapStr_GetValue_def splitDots_letters)
  from ignore_missing_skips[OF 1 2, of _ "[\<lparr>From = ''a'', To = ''b''\<rparr>]"] show ?thesis
    by (simp add: Run_def parseField_def GetValue_def PutValue_def MapStr_GetValue_def
        MapStr_Put_def splitDots_letters url_Parse_h Clone_def)
qed

text \<open>
  C9: with \<open>ignore_missing\<close>, a lookup that fails is skipped without an error only when
  the error is \<open>ErrKeyNotFound\<close>. Any other lookup error (a path through a value that is
  not a map) is an error of the mapping: under \<open>fail_on_error\<close> the loop stops with the
  restored event and that error, otherwise it goes on with the next mapping.
\<close>

theorem lookup_failure_policy:
  assumes "IgnoreMissing config" and "GetValue event (From f) = Inl err"
  shows "parseField config (From f) (To f) event
      = (event, if err = ErrKeyNotFound then None else Some (FetchError (From f) err))
    \<and> (err \<noteq> ErrKeyNotFound \<longrightarrow> FailOnError config \<longrightarrow>
         run_fields config backup (f # rest) event
           = (restore backup (FetchError (From f) err) event, Some (FetchError (From f) err)))
    \<and> (err \<noteq> ErrKeyNotFound \<longrightarrow> \<not> FailOnError config \<longrightarrow>
         run_fields config backup (f # rest) event = run_fields config backup rest event)"
  using assms by (simp add: parseField_def)

theorem lookup_failure_policy_witness:
  "GetValue \<lparr>EventFields = [''a'' \<mapsto> VStr ''//h'']\<rparr> ''a.b'' = Inl ErrNotMapStr
   \<and> parseField \<lparr>Fields = [\<lparr>From = ''a.b'', To = []\<rparr>], IgnoreMissing = True, FailOnError = True\<rparr>
        ''a.b'' [] \<lparr>EventFields = [''a'' \<mapsto> VStr ''//h'']\<rparr>
      = (\<lparr>EventFields = [''a'' \<mapsto> VStr ''//h'']\<rparr>, Some (FetchError ''a.b'' ErrNotMapStr))
   \<and> Run \<lparr>Fields = [\<lparr>From = ''a.b'', To = []\<rparr>], IgnoreMissing = True, FailOnError = True\<rparr>
        \<lparr>EventFields = [''a'' \<mapsto> VStr ''//h'']\<rparr>
      = (\<lparr>EventFields = [''a'' \<mapsto> VStr ''//h'',
            ''error'' \<mapsto> VMap [''message'' \<mapsto> VStr (errMsg (FetchError ''a.b'' ErrNotMapStr))]]\<rparr>,
         Some (FetchError ''a.b'' ErrNotMapStr))"
proof -
  let ?f = "\<lparr>From = ''a.b'', To = []\<rparr>"
  let ?config = "\<lparr>Fields = [?f], IgnoreMissing = True, FailOnError = True\<rparr>"
  let ?event = "\<lparr>EventFields = [''a'' \<mapsto> VStr ''//h'']\<rparr>"
  have 1: "IgnoreMissing ?config" by simp
  have 2: "GetValue ?event (From ?f) = Inl ErrNotMapStr"
    by (simp add: GetValue_def MapStr_GetValue_def splitDots_a_b)
  from lookup_failure_policy[OF 1 2, of "EventFields ?event" "[]"] 2 show ?thesis
    by (simp add: Run_def Clone_def restore_def PutValue_def MapStr_Put_def
        splitDots_error_message)
qed

subsection \<open>The empty string\<close>

text \<open>
  C10, as amended: when the source of a mapping holds the empty string and the target
  can be written (which it always can when \<open>to\<close> is empty, the target then being the
  source), the mapping succeeds: the empty string parses without error, and the target
  is written with the map of the eight components, each the empty string.
\<close>

theorem empty_string_source:
  assumes "GetValue event from = Inr (VStr [])"
    and "to = [] \<or> can_put (splitDots to) (EventFields event)"
  shows "\<exists>event'. parseField config from to event = (event', None)
      \<and> PutValue event (if to = [] then from else to) (VMap empty_components) = Inr event'
      \<and> GetValue event' (if to = [] then from else to) = Inr (VMap empty_components)
      \<and> dom empty_components = component_keys
      \<and> (\<forall>k \<in> component_keys. empty_components k = Some (VStr []))"
proof -
  let ?target = "if to = [] then from else to"
  from assms(1) have "can_put (splitDots from) (EventFields event)"
    by (auto simp: GetValue_def MapStr_GetValue_def dest: walk_get_can_put)
  with assms(2) have "can_put (splitDots ?target) (EventFields event)" by auto
  then obtain event' where put: "PutValue event ?target (VMap empty_components) = Inr event'"
    using PutValue_Inr_iff by blast
  from put assms(1) have "parseField config from to event = (event', None)"
    by (simp add: parseField_def url_Parse_empty components_emptyURL)
  moreover have "\<forall>k \<in> component_keys. empty_components k = Some (VStr [])"
    by (simp add: component_keys_def empty_components_def)
  moreover have "dom empty_components = component_keys"
    using dom_components[of emptyURL] by (simp add: components_emptyURL)
  ultimately show ?thesis using put GetValue_PutValue_same[OF put] by blast
qed

theorem empty_string_source_witness:
  "parseField \<lparr>Fields = [\<lparr>From = ''a'', To = []\<rparr>], IgnoreMissing = False, FailOnError = True\<rparr>
      ''a'' [] \<lparr>EventFields = [''a'' \<mapsto> VStr []]\<rparr>
    = (\<lparr>EventFields = [''a'' \<mapsto> VMap empty_components]\<rparr>, None)"
proof -
  let ?event = "\<lparr>EventFields = [''a'' \<mapsto> VStr []]\<rparr>"
  have 1: "GetValue ?event ''a'' = Inr (VStr [])"
    by (simp add: GetValue_def MapStr_GetValue_def splitDots_letters)
  have 2: "[] = [] \<or> can_put (splitDots []) (EventFields ?event)" by simp
  from empty_string_source[OF 1 2] show ?thesis
    by (auto simp: PutValue_def MapStr_Put_def splitDots_letters)
qed

text \<open>
  The claim as stated, for every event, fails where the target cannot be written: the
  source holds the empty string, \<open>b\<close> holds a number, and the mapping to \<open>b.c\<close> fails.
\<close>

theorem empty_string_unwritable_counterexample:
  "GetValue \<lparr>EventFields = [''a'' \<mapsto> VStr [], ''b'' \<mapsto> VInt 5]\<rparr> ''a'' = Inr (VStr [])
   \<and> parseField \<lparr>Fields = [\<lparr>From = ''a'', To = ''b.c''\<rparr>], IgnoreMissing = False, FailOnError = True\<rparr>
      ''a'' ''b.c'' \<lparr>EventFields = [''a'' \<mapsto> VStr [], ''b'' \<mapsto> VInt 5]\<rparr>
    = (\<lparr>EventFields = [''a'' \<mapsto> VStr [], ''b'' \<mapsto> VInt 5]\<rparr>,
       Some (PutError emptyURL ''b.c'' ErrNotMapStr))"
  by (simp add: parseField_def GetValue_def PutValue_def MapStr_GetValue_def MapStr_Put_def
      splitDots_letters splitDots_b_c url_Parse_empty)

subsection \<open>All sources present and parseable\<close>

text \<open>
  C2, as amended: when every mapping finds a string that parses at its source in the
  input event, every target can be written in the input event, and no write of a mapping
  overlaps the source or the target of a later mapping (\<^const>\<open>no_overlap\<close>), Run returns
  no error; in the event it returns every target holds the map of the components of the
  URL parsed from that mapping's source, with exactly the eight keys, and every field at
  a path independent of all targets reads as in the input event. This holds under
  \<open>fail_on_error\<close> and without it.
\<close>

theorem Run_all_sources_parse:
  assumes "\<forall>f \<in> set (Fields config). parsed_source event f \<noteq> None"
    and "\<forall>f \<in> set (Fields config). can_put (target_path f) (EventFields event)"
    and "no_overlap (Fields config)"
  shows "\<exists>event'. Run config event = (event', None)
      \<and> (\<forall>f \<in> set (Fields config). \<exists>u. parsed_source event f = Some u
            \<and> GetValue event' (target f) = Inr (VMap (components u))
            \<and> dom (components u) = component_keys)
      \<and> (\<forall>key. (\<forall>f \<in> set (Fields config). independent (target_path f) (splitDots key))
            \<longrightarrow> GetValue event' key = GetValue event key)"
proof -
  let ?backup = "if FailOnError config then Clone (EventFields event) else Map.empty"
  from assms(1,2) have "\<forall>f \<in> set (Fields config). parsed_source event f \<noteq> None
      \<and> can_put (target_path f) (EventFields event)" by simp
  from run_fields_all_succeed[OF this assms(3), of config ?backup] obtain event' where
    run: "run_fields config ?backup (Fields config) event = (event', None)"
    and tgt: "\<forall>f \<in> set (Fields config). \<exists>u. parsed_source event f = Some u
            \<and> GetValue event' (target f) = Inr (VMap (components u))"
    and get: "\<forall>key. (\<forall>f \<in> set (Fields config). independent (target_path f) (splitDots key))
            \<longrightarrow> GetValue event' key = GetValue event key"
    by blast
  from run have "Run config event = (event', None)" by (simp add: Run_def)
  moreover from tgt have "\<forall>f \<in> set (Fields config). \<exists>u. parsed_source event f = Some u
      \<and> GetValue event' (target f) = Inr (VMap (components u))
      \<and> dom (components u) = component_keys"
    by (simp add: dom_components)
  ultimately show ?thesis using get by blast
qed

theorem Run_all_sources_parse_witness:
  "snd (Run \<lparr>Fields = [\<lparr>From = ''a'', To = []\<rparr>, \<lparr>From = ''c'', To = ''out.parsed''\<rparr>],
             IgnoreMissing = False, FailOnError = True\<rparr>
          \<lparr>EventFields = [''a'' \<mapsto> VStr ''//h'', ''c'' \<mapsto> VStr [], ''d'' \<mapsto> VInt 1]\<rparr>) = None
   \<and> GetValue (fst (Run \<lparr>Fields = [\<lparr>From = ''a'', To = []\<rparr>, \<lparr>From = ''c'', To = ''out.parsed''\<rparr>],
             IgnoreMissing = False, FailOnError = True\<rparr>
          \<lparr>EventFields = [''a'' \<mapsto> VStr ''//h'', ''c'' \<mapsto> VStr [], ''d'' \<mapsto> VInt 1]\<rparr>)) ''a''
       = Inr (VMap (components (emptyURL\<lparr>Host := ''h''\<rparr>)))
   \<and> GetValue (fst (Run \<lparr>Fields = [\<lparr>From = ''a'', To = []\<rparr>, \<lparr>From = ''c'', To = ''out.parsed''\<rparr>],
             IgnoreMissing = False, FailOnError = True\<rparr>
          \<lparr>EventFields = [''a'' \<mapsto> VStr ''//h'', ''c'' \<mapsto> VStr [], ''d'' \<mapsto> VInt 1]\<rparr>)) ''out.parsed''
       = Inr (VMap (components emptyURL))
   \<and> GetValue (fst (Run \<lparr>Fields = [\<lparr>From = ''a'', To = []\<rparr>, \<lparr>From = ''c'', To = ''out.parsed''\<rparr>],
             IgnoreMissing = False, FailOnError = True\<rparr>
          \<lparr>EventFields = [''a'' \<mapsto> VStr ''//h'', ''c'' \<mapsto> VStr [], ''d'' \<mapsto> VInt 1]\<rparr>)) ''d''
       = Inr (VInt 1)"
proof -
  let ?f1 = "\<lparr>From = ''a'', To = []\<rparr>" and ?f2 = "\<lparr>From = ''c'', To = ''out.parsed''\<rparr>"
  let ?config = "\<lparr>Fields = [?f1, ?f2], IgnoreMissing = False, FailOnError = True\<rparr>"
  let ?event = "\<lparr>EventFields = [''a'' \<mapsto> VStr ''//h'', ''c'' \<mapsto> VStr [], ''d'' \<mapsto> VInt 1]\<rparr>"
  have src: "parsed_source ?event ?f1 = Some (emptyURL\<lparr>Host := ''h''\<rparr>)"
    "parsed_source ?event ?f2 = Some emptyURL"
    by (simp_all add: parsed_source_def GetValue_def MapStr_GetValue_def splitDots_letters
        url_Parse_h url_Parse_empty)
  have paths: "target_path ?f1 = [''a'']" "target_path ?f2 = [''out'', ''parsed'']"
    "source_path ?f2 = [''c'']"
    by (simp_all add: target_path_def source_path_def target_def splitDots_letters
        splitDots_out_parsed)
  have 1: "\<forall>f \<in> set (Fields ?config). parsed_source ?event f \<noteq> None"
    using src by simp
  have 2: "\<forall>f \<in> set (Fields ?config). can_put (target_path f) (EventFields ?event)"
    by (simp add: paths)
  have 3: "no_overlap (Fields ?config)"
    by (simp add: paths independent_def)
  from Run_all_sources_parse[OF 1 2 3] obtain event' where
    run: "Run ?config ?event = (event', None)"
    and tgt: "\<forall>f \<in> set (Fields ?config). \<exists>u. parsed_source ?event f = Some u
            \<and> GetValue event' (target f) = Inr (VMap (components u))
            \<and> dom (components u) = component_keys"
    and get: "\<forall>key. (\<forall>f \<in> set (Fields ?config). independent (target_path f) (splitDots key))
            \<longrightarrow> GetValue event' key = GetValue ?event key"
    by blast
  from tgt src have "GetValue event' ''a'' = Inr (VMap (components (emptyURL\<lparr>Host := ''h''\<rparr>)))"
    and "GetValue event' ''out.parsed'' = Inr (VMap (components emptyURL))"
    by (simp_all add: target_def)
  moreover have "\<forall>f \<in> set (Fields ?config). independent (target_path f) (splitDots ''d'')"
    by (simp add: paths splitDots_letters independent_def)
  with get have "GetValue event' ''d'' = GetValue ?event ''d''" by blast
  then have "GetValue event' ''d'' = Inr (VInt 1)"
    by (simp add: GetValue_def MapStr_GetValue_def splitDots_letters)
  ultimately show ?thesis using run by simp
qed

text \<open>
  The claim as stated, with no condition beyond the sources, fails in two ways. A
  target that passes through a number cannot be written, and a mapping whose source an
  earlier mapping has overwritten finds a map there; each time Run returns an error and
  the restored event.
\<close>

theorem Run_all_sources_parse_counterexample:
  "parsed_source \<lparr>EventFields = [''request'' \<mapsto> VStr ''//h'', ''out'' \<mapsto> VInt 5]\<rparr>
       \<lparr>From = ''request'', To = ''out.parsed''\<rparr> = Some (emptyURL\<lparr>Host := ''h''\<rparr>)
   \<and> Run \<lparr>Fields = [\<lparr>From = ''request'', To = ''out.parsed''\<rparr>],
          IgnoreMissing = False, FailOnError = True\<rparr>
        \<lparr>EventFields = [''request'' \<mapsto> VStr ''//h'', ''out'' \<mapsto> VInt 5]\<rparr>
     = (\<lparr>EventFields = [''request'' \<mapsto> VStr ''//h'', ''out'' \<mapsto> VInt 5,
           ''error'' \<mapsto> VMap [''message'' \<mapsto> VStr (errMsg
              (PutError (emptyURL\<lparr>Host := ''h''\<rparr>) ''out.parsed'' ErrNotMapStr))]]\<rparr>,
        Some (PutError (emptyURL\<lparr>Host := ''h''\<rparr>) ''out.parsed'' ErrNotMapStr))
   \<and> parsed_source \<lparr>EventFields = [''a'' \<mapsto> VStr ''//h'', ''b'' \<mapsto> VStr []]\<rparr>
       \<lparr>From = ''a'', To = ''b''\<rparr> = Some (emptyURL\<lparr>Host := ''h''\<rparr>)
   \<and> parsed_source \<lparr>EventFields = [''a'' \<mapsto> VStr ''//h'', ''b'' \<mapsto> VStr []]\<rparr>
       \<lparr>From = ''b'', To = ''c''\<rparr> = Some emptyURL
   \<and> Run \<lparr>Fields = [\<lparr>From = ''a'', To = ''b''\<rparr>, \<lparr>From = ''b'', To = ''c''\<rparr>],
          IgnoreMissing = False, FailOnError = True\<rparr>
        \<lparr>EventFields = [''a'' \<mapsto> VStr ''//h'', ''b'' \<mapsto> VStr []]\<rparr>
     = (\<lparr>EventFields = [''a'' \<mapsto> VStr ''//h'', ''b'' \<mapsto> VStr [],
           ''error'' \<mapsto> VMap [''message'' \<mapsto> VStr (errMsg
              (TypeError (VMap (components (emptyURL\<lparr>Host := ''h''\<rparr>)))))]]\<rparr>,
        Some (TypeError (VMap (components (emptyURL\<lparr>Host := ''h''\<rparr>)))))"
  by (simp add: parsed_source_def Run_def parseField_def restore_def GetValue_def PutValue_def
      MapStr_GetValue_def MapStr_Put_def splitDots_request splitDots_error_message
      splitDots_letters splitDots_out_parsed url_Parse_h url_Parse_empty Clone_def)

subsection \<open>Applying the plan twice\<close>

text \<open>
  C8, as amended: when Run succeeds on an event, no write of a mapping overlaps the
  source of any mapping (\<^const>\<open>sources_untouched\<close>) and the targets of different mappings
  do not overlap (\<^const>\<open>no_overlap\<close>), Run on the resulting event succeeds and returns
  that event unchanged.
\<close>

theorem Run_twice:
  assumes "snd (Run config event) = None"
    and "sources_untouched (Fields config)"
    and "no_overlap (Fields config)"
  shows "Run config (fst (Run config event)) = (fst (Run config event), None)"
proof -
  let ?backup = "if FailOnError config then Clone (EventFields event) else Map.empty"
  obtain final where run: "run_fields config ?backup (Fields config) event = (final, None)"
    using assms(1) by (cases "run_fields config ?backup (Fields config) event") (simp add: Run_def)
  from assms(2) have "\<forall>f \<in> set (Fields config). independent (target_path f) (source_path f)"
    and "\<forall>f \<in> set (Fields config). \<forall>g \<in> set (Fields config).
           independent (target_path g) (source_path f)"
    by (auto simp: sources_untouched_def)
  from run_fields_settles[OF run this assms(3)]
  have "\<forall>f \<in> set (Fields config). settled config f final" .
  then have "Run config final = (final, None)"
    unfolding Run_def Let_def by (rule run_fields_settled)
  moreover from run have "fst (Run config event) = final" by (simp add: Run_def)
  ultimately show ?thesis by simp
qed

theorem Run_twice_witness:
  "Run \<lparr>Fields = [\<lparr>From = ''a'', To = ''b''\<rparr>, \<lparr>From = ''c'', To = ''d''\<rparr>],
        IgnoreMissing = True, FailOnError = True\<rparr>
     \<lparr>EventFields = [''a'' \<mapsto> VStr ''//h'',
                      ''b'' \<mapsto> VMap (components (emptyURL\<lparr>Host := ''h''\<rparr>))]\<rparr>
   = (\<lparr>EventFields = [''a'' \<mapsto> VStr ''//h'',
                       ''b'' \<mapsto> VMap (components (emptyURL\<lparr>Host := ''h''\<rparr>))]\<rparr>, None)"
proof -
  let ?f1 = "\<lparr>From = ''a'', To = ''b''\<rparr>" and ?f2 = "\<lparr>From = ''c'', To = ''d''\<rparr>"
  let ?config = "\<lparr>Fields = [?f1, ?f2], IgnoreMissing = True, FailOnError = True\<rparr>"
  let ?event = "\<lparr>EventFields = [''a'' \<mapsto> VStr ''//h'']\<rparr>"
  have run: "Run ?config ?event
      = (\<lparr>EventFields = [''a'' \<mapsto> VStr ''//h'',
                          ''b'' \<mapsto> VMap (components (emptyURL\<lparr>Host := ''h''\<rparr>))]\<rparr>, None)"
    by (simp add: Run_def parseField_def GetValue_def PutValue_def MapStr_GetValue_def
        MapStr_Put_def splitDots_letters url_Parse_h Clone_def)
  have paths: "target_path ?f1 = [''b'']" "target_path ?f2 = [''d'']"
    "source_path ?f1 = [''a'']" "source_path ?f2 = [''c'']"
    by (simp_all add: target_path_def source_path_def target_def splitDots_letters)
  have 1: "snd (Run ?config ?event) = None" by (simp add: run)
  have 2: "sources_untouched (Fields ?config)"
    by (simp add: sources_untouched_def paths independent_def)
  have 3: "no_overlap (Fields ?config)"
    by (simp add: paths independent_def)
  from Run_twice[OF 1 2 3] show ?thesis by (simp add: run)
qed

text \<open>
  The claim as stated, for every plan, fails for the mapping from \<open>request\<close> to
  \<open>request\<close>: after the first run the source holds a map, so the second run fails and
  adds \<open>error.message\<close>. It also fails where a later mapping writes above the target of
  an earlier one: the second run cannot write through the string at \<open>x.scheme\<close>.
\<close>

theorem Run_twice_counterexample:
  "snd (Run \<lparr>Fields = [\<lparr>From = ''request'', To = ''request''\<rparr>],
             IgnoreMissing = False, FailOnError = True\<rparr>
         \<lparr>EventFields = [''request'' \<mapsto> VStr ''https://example.com:8443/a/b?x=1#frag'']\<rparr>) = None
   \<and> GetValue (fst (Run \<lparr>Fields = [\<lparr>From = ''request'', To = ''request''\<rparr>],
             IgnoreMissing = False, FailOnError = True\<rparr>
         \<lparr>EventFields = [''request'' \<mapsto> VStr ''https://example.com:8443/a/b?x=1#frag'']\<rparr>))
        ''error.message'' = Inl ErrKeyNotFound
   \<and> snd (Run \<lparr>Fields = [\<lparr>From = ''request'', To = ''request''\<rparr>],
             IgnoreMissing = False, FailOnError = True\<rparr>
         (fst (Run \<lparr>Fields = [\<lparr>From = ''request'', To = ''request''\<rparr>],
             IgnoreMissing = False, FailOnError = True\<rparr>
         \<lparr>EventFields = [''request'' \<mapsto> VStr ''https://example.com:8443/a/b?x=1#frag'']\<rparr>)))
       = Some (TypeError (VMap (components
           \<lparr>Scheme = ''https'', Opaque = [], Host = ''example.com:8443'', Path = ''/a/b'',
            RawPath = [], RawQuery = ''x=1'', Fragment = ''frag''\<rparr>)))
   \<and> GetValue (fst (Run \<lparr>Fields = [\<lparr>From = ''request'', To = ''request''\<rparr>],
             IgnoreMissing = False, FailOnError = True\<rparr>
         (fst (Run \<lparr>Fields = [\<lparr>From = ''request'', To = ''request''\<rparr>],
             IgnoreMissing = False, FailOnError = True\<rparr>
         \<lparr>EventFields = [''request'' \<mapsto> VStr ''https://example.com:8443/a/b?x=1#frag'']\<rparr>))))
        ''error.message''
       = Inr (VStr (errMsg (TypeError (VMap (components
           \<lparr>Scheme = ''https'', Opaque = [], Host = ''example.com:8443'', Path = ''/a/b'',
            RawPath = [], RawQuery = ''x=1'', Fragment = ''frag''\<rparr>)))))
   \<and> snd (Run \<lparr>Fields = [\<lparr>From = ''a'', To = ''x.scheme.foo''\<rparr>, \<lparr>From = ''b'', To = ''x''\<rparr>],
             IgnoreMissing = False, FailOnError = True\<rparr>
         \<lparr>EventFields = [''a'' \<mapsto> VStr ''//h'', ''b'' \<mapsto> VStr ''//h'']\<rparr>) = None
   \<and> snd (Run \<lparr>Fields = [\<lparr>From = ''a'', To = ''x.scheme.foo''\<rparr>, \<lparr>From = ''b'', To = ''x''\<rparr>],
             IgnoreMissing = False, FailOnError = True\<rparr>
         (fst (Run \<lparr>Fields = [\<lparr>From = ''a'', To = ''x.scheme.foo''\<rparr>, \<lparr>From = ''b'', To = ''x''\<rparr>],
             IgnoreMissing = False, FailOnError = True\<rparr>
         \<lparr>EventFields = [''a'' \<mapsto> VStr ''//h'', ''b'' \<mapsto> VStr ''//h'']\<rparr>)))
       = Some (PutError (emptyURL\<lparr>Host := ''h''\<rparr>) ''x.scheme.foo'' ErrNotMapStr)"
  by (simp add: Run_def parseField_def restore_def GetValue_def PutValue_def
      MapStr_GetValue_def MapStr_Put_def splitDots_request splitDots_error_message
      splitDots_letters splitDots_x url_Parse_example url_Parse_h Clone_def components_def)

subsection \<open>Checks at construction\<close>

lemma unpack_fromTo_lacks_from: "lacks_from entry \<Longrightarrow> isl (unpack_fromTo entry)"
  by (auto simp: lacks_from_def unpack_fromTo_def split: cfg.splits)

lemma unpack_entries_lacks_from:
  "\<exists>entry \<in> set entries. lacks_from entry \<Longrightarrow> isl (unpack_entries entries)"
proof (induction entries)
  case Nil
  then show ?case by simp
next
  case (Cons entry entries)
  show ?case
  proof (cases "lacks_from entry")
    case True
    then have "isl (unpack_fromTo entry)" by (rule unpack_fromTo_lacks_from)
    then show ?thesis by (auto simp: isl_def)
  next
    case False
    with Cons.prems have "\<exists>entry \<in> set entries. lacks_from entry" by simp
    then have "isl (unpack_entries entries)" by (rule Cons.IH)
    then show ?thesis by (auto simp: isl_def split: sum.splits)
  qed
qed

lemma unpack_entries_nonempty:
  "unpack_entries entries = Inr fs \<Longrightarrow> entries \<noteq> [] \<Longrightarrow> fs \<noteq> []"
  by (cases entries) (auto split: sum.splits)

lemma Unpack_absent: "map_of c ''fields'' = None \<Longrightarrow> isl (Unpack c config)"
  by (simp add: Unpack_def)

lemma Unpack_empty: "map_of c ''fields'' = Some (CList []) \<Longrightarrow> isl (Unpack c config)"
  by (simp add: Unpack_def)

lemma Unpack_lacks_from:
  assumes "map_of c ''fields'' = Some (CList entries)"
    and "\<exists>entry \<in> set entries. lacks_from entry"
  shows "isl (Unpack c config)"
proof -
  from assms(2) have "isl (unpack_entries entries)" by (rule unpack_entries_lacks_from)
  with assms(1) show ?thesis by (auto simp: Unpack_def isl_def)
qed

lemma Unpack_Inr:
  assumes "Unpack c config = Inr config'"
  shows "(map_of c ''ignore_missing'' = None \<longrightarrow> IgnoreMissing config' = IgnoreMissing config)
    \<and> (map_of c ''fail_on_error'' = None \<longrightarrow> FailOnError config' = FailOnError config)
    \<and> Fields config' \<noteq> []"
proof -
  from assms obtain entries where fields: "map_of c ''fields'' = Some (CList entries)"
    by (auto simp: Unpack_def split: option.splits cfg.splits)
  with assms have ne: "entries \<noteq> []" by (auto simp: Unpack_def)
  with assms fields obtain fs where fs: "unpack_entries entries = Inr fs"
    by (cases "unpack_entries entries") (auto simp: Unpack_def)
  with assms fields ne obtain im where im:
    "unpack_bool c ''ignore_missing'' (IgnoreMissing config) = Inr im"
    by (cases "unpack_bool c ''ignore_missing'' (IgnoreMissing config)") (auto simp: Unpack_def)
  with assms fields ne fs obtain foe where foe:
    "unpack_bool c ''fail_on_error'' (FailOnError config) = Inr foe"
    by (cases "unpack_bool c ''fail_on_error'' (FailOnError config)") (auto simp: Unpack_def)
  from assms fields ne fs im foe
  have config': "config' = \<lparr>Fields = fs, IgnoreMissing = im, FailOnError = foe\<rparr>"
    by (simp add: Unpack_def)
  from im have "map_of c ''ignore_missing'' = None \<longrightarrow> im = IgnoreMissing config"
    by (auto simp: unpack_bool_def)
  moreover from foe have "map_of c ''fail_on_error'' = None \<longrightarrow> foe = FailOnError config"
    by (auto simp: unpack_bool_def)
  moreover from fs ne have "fs \<noteq> []" by (rule unpack_entries_nonempty)
  ultimately show ?thesis by (simp add: config')
qed

lemma New_isl: "isl (Unpack c \<lparr>Fields = [], IgnoreMissing = False, FailOnError = True\<rparr>)
    \<Longrightarrow> isl (New c)"
  by (auto simp: New_def isl_def)

lemma New_absent: "map_of c ''fields'' = None \<Longrightarrow> isl (New c)"
  by (intro New_isl Unpack_absent)

lemma New_empty: "map_of c ''fields'' = Some (CList []) \<Longrightarrow> isl (New c)"
  by (intro New_isl Unpack_empty)

lemma New_lacks_from:
  "map_of c ''fields'' = Some (CList entries) \<Longrightarrow> \<exists>entry \<in> set entries. lacks_from entry
    \<Longrightarrow> isl (New c)"
  by (intro New_isl Unpack_lacks_from)

lemma New_defaults:
  assumes "New c = Inr config"
  shows "(map_of c ''ignore_missing'' = None \<longrightarrow> \<not> IgnoreMissing config)
    \<and> (map_of c ''fail_on_error'' = None \<longrightarrow> FailOnError config)
    \<and> Fields config \<noteq> []"
proof -
  let ?defaults = "\<lparr>Fields = [], IgnoreMissing = False, FailOnError = True\<rparr>"
  from assms have "Unpack c ?defaults = Inr config"
    by (cases "Unpack c ?defaults") (simp_all add: New_def)
  from Unpack_Inr[OF this] show ?thesis by simp
qed

lemma plugin_Inr: "urlparse_plugin c = Inr config \<Longrightarrow> New c = Inr config"
  by (auto simp: urlparse_plugin_def ConfigChecked_def split: option.splits)

lemma plugin_New_fails: "isl (New c) \<Longrightarrow> isl (urlparse_plugin c)"
  by (auto simp: urlparse_plugin_def ConfigChecked_def split: option.splits)

lemma plugin_unexpected:
  assumes "\<exists>name \<in> set (GetFields c). name \<notin> {''fields'', ''ignore_missing'', ''fail_on_error''}"
  shows "isl (urlparse_plugin c)"
proof -
  let ?allowed = "[''fields'', ''ignore_missing'', ''fail_on_error'']"
  from assms have "filter (\<lambda>name. name \<notin> set ?allowed) (GetFields c) \<noteq> []"
    by (auto simp: filter_empty_conv)
  then have "AllowedFields ?allowed c \<noteq> None"
    by (auto simp: AllowedFields_def split: list.splits)
  then show ?thesis
    by (auto simp: urlparse_plugin_def ConfigChecked_def split: option.splits)
qed

text \<open>
  C7: construction fails with a configuration error when \<open>fields\<close> is absent, when it
  is empty and when an entry lacks \<open>from\<close>, both in \<open>New\<close> and in the checked constructor
  that \<open>init\<close> registers; the checked constructor also fails when the raw configuration
  has a key other than \<open>fields\<close>, \<open>ignore_missing\<close> and \<open>fail_on_error\<close>. When construction
  succeeds, \<open>ignore_missing\<close> is false and \<open>fail_on_error\<close> is true unless the raw
  configuration sets them, and the list of mappings is not empty.
\<close>

theorem construction_checks:
  "(map_of c ''fields'' = None \<longrightarrow> isl (New c) \<and> isl (urlparse_plugin c))
   \<and> (map_of c ''fields'' = Some (CList []) \<longrightarrow> isl (New c) \<and> isl (urlparse_plugin c))
   \<and> (\<forall>entries. map_of c ''fields'' = Some (CList entries)
         \<and> (\<exists>entry \<in> set entries. lacks_from entry)
         \<longrightarrow> isl (New c) \<and> isl (urlparse_plugin c))
   \<and> ((\<exists>name \<in> set (GetFields c).
          name \<notin> {''fields'', ''ignore_missing'', ''fail_on_error''})
        \<longrightarrow> isl (urlparse_plugin c))
   \<and> (\<forall>config. urlparse_plugin c = Inr config \<or> New c = Inr config \<longrightarrow>
         (map_of c ''ignore_missing'' = None \<longrightarrow> \<not> IgnoreMissing config)
         \<and> (map_of c ''fail_on_error'' = None \<longrightarrow> FailOnError config)
         \<and> Fields config \<noteq> [])"
proof (intro conjI allI impI)
  assume "map_of c ''fields'' = None"
  then show "isl (New c)" by (rule New_absent)
  then show "isl (urlparse_plugin c)" by (rule plugin_New_fails)
next
  assume "map_of c ''fields'' = Some (CList [])"
  then show "isl (New c)" by (rule New_empty)
  then show "isl (urlparse_plugin c)" by (rule plugin_New_fails)
next
  fix entries
  assume "map_of c ''fields'' = Some (CList entries)
    \<and> (\<exists>entry \<in> set entries. lacks_from entry)"
  then show "isl (New c)" using New_lacks_from[of c entries] by simp
  then show "isl (urlparse_plugin c)" by (rule plugin_New_fails)
next
  assume "\<exists>name \<in> set (GetFields c).
    name \<notin> {''fields'', ''ignore_missing'', ''fail_on_error''}"
  then show "isl (urlparse_plugin c)" by (rule plugin_unexpected)
next
  fix config
  assume "urlparse_plugin c = Inr config \<or> New c = Inr config"
  then have new: "New c = Inr config" using plugin_Inr[of c config] by auto
  {
    assume "map_of c ''ignore_missing'' = None"
    with New_defaults[OF new] show "\<not> IgnoreMissing config" by simp
  }
  {
    assume "map_of c ''fail_on_error'' = None"
    with New_defaults[OF new] show "FailOnError config" by simp
  }
  from New_defaults[OF new] show "Fields config \<noteq> []" by simp
qed

theorem construction_checks_witness:
  "isl (urlparse_plugin [])
   \<and> isl (urlparse_plugin [(''fields'', CList [])])
   \<and> isl (urlparse_plugin [(''fields'', CList [CDict [(''to'', CStr ''url'')]])])
   \<and> isl (urlparse_plugin [(''fields'', CList [CDict [(''from'', CStr ''request'')]]),
                            (''target'', CStr ''url'')])
   \<and> \<not> IgnoreMissing \<lparr>Fields = [\<lparr>From = ''request'', To = []\<rparr>],
                        IgnoreMissing = False, FailOnError = True\<rparr>
   \<and> FailOnError \<lparr>Fields = [\<lparr>From = ''request'', To = []\<rparr>],
                        IgnoreMissing = False, FailOnError = True\<rparr>
   \<and> urlparse_plugin [(''fields'', CList [CDict [(''from'', CStr ''request'')]])]
       = Inr \<lparr>Fields = [\<lparr>From = ''request'', To = []\<rparr>],
              IgnoreMissing = False, FailOnError = True\<rparr>"
proof -
  let ?ok = "[(''fields'', CList [CDict [(''from'', CStr ''request'')]])]"
  let ?config = "\<lparr>Fields = [\<lparr>From = ''request'', To = []\<rparr>],
                  IgnoreMissing = False, FailOnError = True\<rparr>"
  have ok: "urlparse_plugin ?ok = Inr ?config"
    by (simp add: urlparse_plugin_def ConfigChecked_def HasField_def AllowedFields_def
        GetFields_def New_def Unpack_def unpack_fromTo_def unpack_bool_def)
  have 1: "map_of ([] :: Config) ''fields'' = None" by simp
  have 2: "map_of [(''fields'', CList [])] ''fields'' = Some (CList [])" by simp
  have 3: "map_of [(''fields'', CList [CDict [(''to'', CStr ''url'')]])] ''fields''
      = Some (CList [CDict [(''to'', CStr ''url'')]])
    \<and> (\<exists>entry \<in> set [CDict [(''to'', CStr ''url'')]]. lacks_from entry)"
    by (simp add: lacks_from_def)
  have 4: "\<exists>name \<in> set (GetFields (?ok @ [(''target'', CStr ''url'')])).
      name \<notin> {''fields'', ''ignore_missing'', ''fail_on_error''}"
    by (simp add: GetFields_def)
  have 5: "map_of ?ok ''ignore_missing'' = None" "map_of ?ok ''fail_on_error'' = None"
    by simp_all
  note absent = construction_checks[THEN conjunct1, rule_format]
  note empty = construction_checks[THEN conjunct2, THEN conjunct1, rule_format]
  note lacks = construction_checks[THEN conjunct2, THEN conjunct2, THEN conjunct1, rule_format]
  note unexpected = construction_checks[THEN conjunct2, THEN conjunct2, THEN conjunct2,
      THEN conjunct1, rule_format]
  note defaults = construction_checks[THEN conjunct2, THEN conjunct2, THEN conjunct2,
      THEN conjunct2, rule_format]
  have "isl (urlparse_plugin [])" using absent[OF 1] by (rule conjunct2)
  moreover have "isl (urlparse_plugin [(''fields'', CList [])])"
    using empty[OF 2] by (rule conjunct2)
  moreover have "isl (urlparse_plugin [(''fields'', CList [CDict [(''to'', CStr ''url'')]])])"
    using lacks[OF 3] by (rule conjunct2)
  moreover have "isl (urlparse_plugin (?ok @ [(''target'', CStr ''url'')]))"
    using 4 by (rule unexpected)
  moreover have "\<not> IgnoreMissing ?config" "FailOnError ?config"
    using defaults[OF disjI1[OF ok]] 5 by blast+
  ultimately show ?thesis using ok by simp
qed

end
